theory Spec2Isabelle
  imports Complex_Main "HOL-Library.Product_Lexorder"
begin

section \<open>The free-one, only-over-ISLs forwarding state of one epoch\<close>

text \<open>
  The development embeds \<^verbatim>\<open>algorithm_free_one_only_over_isls\<close> of
  \<^verbatim>\<open>satgen/dynamic_state/algorithm_free_one_only_over_isls.py\<close>.

  Conventions of the embedding.
  \<^item> Node ids and list indices are natural numbers; satellites are \<open>0..<S\<close> and ground
    station \<open>g\<close> has node id \<open>S + g\<close>, where \<open>S = len(satellites)\<close>.
  \<^item> Python floats are exact reals extended by \<open>+inf\<close> (type \<open>distance\<close>); rounding, NaN
    and \<open>-inf\<close> are not modelled. Edge weights and access distances are finite reals.
  \<^item> A Python dict is an association list read with \<open>map_of\<close>; a missing key raises
    \<open>KeyError\<close>. A Python list read out of range raises \<open>IndexError\<close>.
  \<^item> Every exception is a value \<open>Inl e\<close>. The two output files are part of the outcome, so
    that what has been written when an exception leaves the function stays visible.
  \<^item> Verbose logging and the names of the output files are left out.
  \<^item> The source's variable \<^verbatim>\<open>curr\<close> is written \<open>cur\<close>, since HOL has a constant of that name.
\<close>

subsection \<open>Values, errors and files\<close>

datatype error = ValueError string | NetworkXError | IndexError | KeyError

datatype distance = Finite real | Infinite

fun dist_add :: "distance \<Rightarrow> distance \<Rightarrow> distance" where
  "dist_add (Finite x) (Finite y) = Finite (x + y)"
| "dist_add _ _ = Infinite"

fun dist_less :: "distance \<Rightarrow> distance \<Rightarrow> bool" where
  "dist_less (Finite x) (Finite y) = (x < y)"
| "dist_less (Finite x) Infinite = True"
| "dist_less Infinite _ = False"

definition dist_min :: "distance \<Rightarrow> distance \<Rightarrow> distance" where
  "dist_min a b = (if dist_less b a then b else a)"

text \<open>A forwarding entry \<open>(next hop, egress interface, ingress interface)\<close>; the table
  \<open>fstate\<close>, a dict keyed by \<open>(source, destination)\<close>; one line of each output file.\<close>

type_synonym entry = "int \<times> int \<times> int"
type_synonym fstate = "((nat \<times> nat) \<times> entry) list"
type_synonym fstate_line = "nat \<times> nat \<times> int \<times> int \<times> int"
type_synonym bandwidth_line = "nat \<times> int \<times> real"

definition drop_entry :: entry where
  "drop_entry = (-1, -1, -1)"

definition py_index :: "'a list \<Rightarrow> nat \<Rightarrow> error + 'a" where
  "py_index xs i = (if i < length xs then Inr (xs ! i) else Inl IndexError)"

definition py_getitem :: "('k \<times> 'v) list \<Rightarrow> 'k \<Rightarrow> error + 'v" where
  "py_getitem d k = (case map_of d k of None \<Rightarrow> Inl KeyError | Some v \<Rightarrow> Inr v)"

text \<open>\<^verbatim>\<open>d[k] = v\<close> on a dict: an existing key keeps its place, a new key goes last.\<close>

fun py_setitem :: "('k \<times> 'v) list \<Rightarrow> 'k \<Rightarrow> 'v \<Rightarrow> ('k \<times> 'v) list" where
  "py_setitem [] k v = [(k, v)]"
| "py_setitem (p # ps) k v = (if fst p = k then (k, v) # ps else p # py_setitem ps k v)"

subsection \<open>The backbone graph and its distance matrix\<close>

text \<open>
  A networkx graph is its adjacency dict: every node, in insertion order, with its
  neighbours and the weight of the edge to each. \<^verbatim>\<open>G.neighbors(n)\<close> raises
  \<^verbatim>\<open>NetworkXError\<close> for a node that is not in the graph.
\<close>

type_synonym graph = "(nat \<times> (nat \<times> real) list) list"

definition number_of_nodes :: "graph \<Rightarrow> nat" where
  "number_of_nodes G = length G"

definition neighbors :: "graph \<Rightarrow> nat \<Rightarrow> error + nat list" where
  "neighbors G n = (case map_of G n of None \<Rightarrow> Inl NetworkXError | Some nbrs \<Rightarrow> Inr (map fst nbrs))"

text \<open>
  Modelled from the spec: the all-pairs shortest path engine (section 4.2), which the code
  takes from the networkx library as \<^verbatim>\<open>floyd_warshall_numpy\<close>. Row and column \<open>i\<close>
  belong to the \<open>i\<close>-th node of the graph; a missing edge is \<open>+inf\<close>, the diagonal is zero,
  and round \<open>i\<close> replaces every \<open>A[r][c]\<close> by \<open>min(A[r][c], A[i][c] + A[r][i])\<close>.
\<close>

definition to_numpy_array :: "graph \<Rightarrow> distance list list" where
  "to_numpy_array G =
     map (\<lambda>(u, nbrs). map (\<lambda>(v, _). if u = v then Finite 0
                                     else (case map_of nbrs v of None \<Rightarrow> Infinite
                                           | Some w \<Rightarrow> Finite w)) G) G"

definition floyd_warshall_round :: "distance list list \<Rightarrow> nat \<Rightarrow> distance list list" where
  "floyd_warshall_round A i =
     map (\<lambda>row. map (\<lambda>(a_rc, a_ic). dist_min a_rc (dist_add a_ic (row ! i))) (zip row (A ! i))) A"

definition floyd_warshall_numpy :: "graph \<Rightarrow> distance list list" where
  "floyd_warshall_numpy G = foldl floyd_warshall_round (to_numpy_array G) [0..<length G]"

text \<open>\<^verbatim>\<open>A[(i, j)]\<close> on the matrix.\<close>

definition matrix_at :: "distance list list \<Rightarrow> nat \<Rightarrow> nat \<Rightarrow> error + distance" where
  "matrix_at A i j = (if i < length A \<and> j < length (A ! i) then Inr (A ! i ! j) else Inl IndexError)"

subsection \<open>Loops that an exception can leave\<close>

text \<open>
  A loop body takes the loop's state and returns the new state, or the exception together
  with the state at the moment it was raised. \<open>for_each\<close> runs the body over a list and
  stops at the first exception.
\<close>

fun for_each :: "('a \<Rightarrow> 's \<Rightarrow> (error \<times> 's) + 's) \<Rightarrow> 'a list \<Rightarrow> 's \<Rightarrow> (error \<times> 's) + 's" where
  "for_each body [] s = Inr s"
| "for_each body (x # xs) s =
     (case body x s of Inl es \<Rightarrow> Inl es | Inr s' \<Rightarrow> for_each body xs s')"

subsection \<open>Inputs and outcome\<close>

record ('s, 'g) inputs =
  time_since_epoch_ns :: int
  satellites :: "'s list"
  ground_stations :: "'g list"
  sat_net_graph_without_gs :: graph
  ground_station_satellites_in_range :: "(real \<times> nat) list list"
  num_isls_per_sat :: "int list"
  sat_neighbor_to_if :: "((nat \<times> nat) \<times> int) list"
  list_gsl_interfaces_info :: "(string \<times> real) list list"
  prev_output :: "fstate option"

text \<open>A file that was never opened is \<open>None\<close>; an opened file holds the lines written so far.\<close>

record outcome =
  gsl_if_bandwidth_file :: "bandwidth_line list option"
  fstate_file :: "fstate_line list option"
  returned :: "error + fstate"

subsection \<open>Checking the graph\<close>

definition check_satellite :: "graph \<Rightarrow> nat \<Rightarrow> nat \<Rightarrow> error + unit" where
  "check_satellite G S sid =
     (case neighbors G sid of Inl e \<Rightarrow> Inl e
      | Inr ns \<Rightarrow> if list_ex (\<lambda>n. n \<ge> S) ns
                  then Inl (ValueError ''Graph cannot contain satellite-to-ground-station links'')
                  else Inr ())"

fun check_satellites :: "graph \<Rightarrow> nat \<Rightarrow> nat list \<Rightarrow> error + unit" where
  "check_satellites G S [] = Inr ()"
| "check_satellites G S (sid # sids) =
     (case check_satellite G S sid of Inl e \<Rightarrow> Inl e | Inr _ \<Rightarrow> check_satellites G S sids)"

definition check_graph :: "graph \<Rightarrow> nat \<Rightarrow> error + unit" where
  "check_graph G S =
     (if number_of_nodes G \<noteq> S
      then Inl (ValueError ''Number of nodes in the graph does not match the number of satellites'')
      else check_satellites G S [0..<S])"

subsection \<open>Bandwidth state\<close>

definition satellite_bandwidth_line :: "('s, 'g) inputs \<Rightarrow> nat \<Rightarrow> error + bandwidth_line" where
  "satellite_bandwidth_line inp node_id =
     (case py_index (num_isls_per_sat inp) node_id of Inl e \<Rightarrow> Inl e
      | Inr k \<Rightarrow>
     (case py_index (list_gsl_interfaces_info inp) node_id of Inl e \<Rightarrow> Inl e
      | Inr info \<Rightarrow>
     (case py_getitem info ''aggregate_max_bandwidth'' of Inl e \<Rightarrow> Inl e
      | Inr bw \<Rightarrow> Inr (node_id, k, bw))))"

definition ground_station_bandwidth_line :: "('s, 'g) inputs \<Rightarrow> nat \<Rightarrow> error + bandwidth_line" where
  "ground_station_bandwidth_line inp node_id =
     (case py_index (list_gsl_interfaces_info inp) node_id of Inl e \<Rightarrow> Inl e
      | Inr info \<Rightarrow>
     (case py_getitem info ''aggregate_max_bandwidth'' of Inl e \<Rightarrow> Inl e
      | Inr bw \<Rightarrow> Inr (node_id, 0, bw)))"

definition write_line :: "('a \<Rightarrow> error + 'l) \<Rightarrow> 'a \<Rightarrow> 'l list \<Rightarrow> (error \<times> 'l list) + 'l list" where
  "write_line mk x f_out = (case mk x of Inl e \<Rightarrow> Inl (e, f_out) | Inr l \<Rightarrow> Inr (f_out @ [l]))"

definition write_bandwidth_state :: "('s, 'g) inputs \<Rightarrow> (error \<times> bandwidth_line list) + bandwidth_line list" where
  "write_bandwidth_state inp =
     (let S = length (satellites inp); G = length (ground_stations inp) in
      if time_since_epoch_ns inp = 0
      then (case for_each (write_line (satellite_bandwidth_line inp)) [0..<S] [] of
              Inl ef \<Rightarrow> Inl ef
            | Inr f_out \<Rightarrow> for_each (write_line (ground_station_bandwidth_line inp)) [S..<S + G] f_out)
      else Inr [])"

subsection \<open>Forwarding state: satellites to ground stations\<close>

text \<open>
  The candidates of satellite \<open>cur\<close> for one ground station: every \<open>b\<close> of the visibility
  list whose satellite \<open>b[1]\<close> is at a finite backbone distance, as the pair
  \<open>(distance + b[0], b[1])\<close>, in the order of the visibility list. The test
  \<^verbatim>\<open>not math.isinf(d)\<close> is the case \<open>Finite x\<close>.
\<close>

fun satellite_possibilities ::
  "distance list list \<Rightarrow> nat \<Rightarrow> (real \<times> nat) list \<Rightarrow> error + (real \<times> nat) list" where
  "satellite_possibilities D cur [] = Inr []"
| "satellite_possibilities D cur (b # bs) =
     (case matrix_at D cur (snd b) of Inl e \<Rightarrow> Inl e
      | Inr d \<Rightarrow>
     (case satellite_possibilities D cur bs of Inl e \<Rightarrow> Inl e
      | Inr possibilities \<Rightarrow>
          Inr (case d of Infinite \<Rightarrow> possibilities
               | Finite x \<Rightarrow> (x + fst b, snd b) # possibilities)))"

text \<open>
  The scan of \<open>cur\<close>'s neighbours: a neighbour replaces the decision when its sum is
  strictly below \<open>best_dist\<close>.
\<close>

fun best_neighbor ::
  "distance list list \<Rightarrow> ((nat \<times> nat) \<times> int) list \<Rightarrow> nat \<Rightarrow> nat \<Rightarrow> nat list \<Rightarrow>
     entry \<times> distance \<Rightarrow> error + entry \<times> distance" where
  "best_neighbor D nif cur dst_sat [] acc = Inr acc"
| "best_neighbor D nif cur dst_sat (n # ns) (next_hop_decision, best_dist) =
     (case matrix_at D cur n of Inl e \<Rightarrow> Inl e
      | Inr d_curr_n \<Rightarrow>
     (case matrix_at D n dst_sat of Inl e \<Rightarrow> Inl e
      | Inr d_n_dst \<Rightarrow>
        if dist_less (dist_add d_curr_n d_n_dst) best_dist
        then (case py_getitem nif (cur, n) of Inl e \<Rightarrow> Inl e
              | Inr if_out \<Rightarrow>
             (case py_getitem nif (n, cur) of Inl e \<Rightarrow> Inl e
              | Inr if_in \<Rightarrow>
                best_neighbor D nif cur dst_sat ns
                  ((int n, if_out, if_in), dist_add d_curr_n d_n_dst)))
        else best_neighbor D nif cur dst_sat ns (next_hop_decision, best_dist)))"

text \<open>The satellite selected for the last hop, with its total cost: \<open>possibilities[0]\<close>
  after sorting the pairs.\<close>

definition select_possibility :: "(real \<times> nat) list \<Rightarrow> (real \<times> nat) option" where
  "select_possibility possibilities =
     (case sort possibilities of [] \<Rightarrow> None | p # _ \<Rightarrow> Some p)"

text \<open>The decision for \<open>(cur, dst_gs)\<close> and the distance cached for it.\<close>

definition satellite_to_ground_station ::
  "('s, 'g) inputs \<Rightarrow> distance list list \<Rightarrow> nat \<Rightarrow> nat \<Rightarrow> error + entry \<times> distance" where
  "satellite_to_ground_station inp D cur dst_gs =
     (let dst_gs_node_id = length (satellites inp) + dst_gs in
      case py_index (ground_station_satellites_in_range inp) dst_gs of Inl e \<Rightarrow> Inl e
      | Inr possible_dst_sats \<Rightarrow>
     (case satellite_possibilities D cur possible_dst_sats of Inl e \<Rightarrow> Inl e
      | Inr possibilities \<Rightarrow>
     (case select_possibility possibilities of
        None \<Rightarrow> Inr (drop_entry, Infinite)
      | Some (distance_to_ground_station_m, dst_sat) \<Rightarrow>
          if cur \<noteq> dst_sat
          then (case neighbors (sat_net_graph_without_gs inp) cur of Inl e \<Rightarrow> Inl e
                | Inr ns \<Rightarrow>
               (case best_neighbor D (sat_neighbor_to_if inp) cur dst_sat ns
                       (drop_entry, Finite 1000000000000000) of
                  Inl e \<Rightarrow> Inl e
                | Inr (next_hop_decision, _) \<Rightarrow>
                    Inr (next_hop_decision, Finite distance_to_ground_station_m)))
          else (case py_index (num_isls_per_sat inp) dst_sat of Inl e \<Rightarrow> Inl e
                | Inr k \<Rightarrow>
                    Inr ((int dst_gs_node_id, k, 0), Finite distance_to_ground_station_m)))))"

subsection \<open>Forwarding state: ground stations to ground stations\<close>

fun ground_station_possibilities ::
  "((nat \<times> nat) \<times> distance) list \<Rightarrow> nat \<Rightarrow> (real \<times> nat) list \<Rightarrow> error + (real \<times> nat) list" where
  "ground_station_possibilities cache dst_gs_node_id [] = Inr []"
| "ground_station_possibilities cache dst_gs_node_id (a # rest) =
     (case py_getitem cache (snd a, dst_gs_node_id) of Inl e \<Rightarrow> Inl e
      | Inr best_distance_offered_m \<Rightarrow>
     (case ground_station_possibilities cache dst_gs_node_id rest of Inl e \<Rightarrow> Inl e
      | Inr possibilities \<Rightarrow>
          Inr (case best_distance_offered_m of Infinite \<Rightarrow> possibilities
               | Finite x \<Rightarrow> (fst a + x, snd a) # possibilities)))"

definition ground_station_to_ground_station ::
  "('s, 'g) inputs \<Rightarrow> ((nat \<times> nat) \<times> distance) list \<Rightarrow> nat \<Rightarrow> nat \<Rightarrow> error + entry" where
  "ground_station_to_ground_station inp cache src_gid dst_gid =
     (let dst_gs_node_id = length (satellites inp) + dst_gid in
      case py_index (ground_station_satellites_in_range inp) src_gid of Inl e \<Rightarrow> Inl e
      | Inr possible_src_sats \<Rightarrow>
     (case ground_station_possibilities cache dst_gs_node_id possible_src_sats of Inl e \<Rightarrow> Inl e
      | Inr possibilities \<Rightarrow>
     (case select_possibility possibilities of
        None \<Rightarrow> Inr drop_entry
      | Some (_, src_sat_id) \<Rightarrow>
         (case py_index (num_isls_per_sat inp) src_sat_id of Inl e \<Rightarrow> Inl e
          | Inr k \<Rightarrow> Inr (int src_sat_id, 0, k)))))"

subsection \<open>Writing the forwarding state\<close>

text \<open>The three objects the two loops update: the cached distances, the table and the
  lines written to the forwarding-state file.\<close>

record forwarding =
  dist_satellite_to_ground_station :: "((nat \<times> nat) \<times> distance) list"
  fstate :: fstate
  f_out :: "fstate_line list"

text \<open>\<^verbatim>\<open>not prev_fstate or prev_fstate[key] != next_hop_decision\<close>: an absent and an empty
  previous table both make the entry count as changed; a non-empty one is read at the key.\<close>

definition entry_changed :: "fstate option \<Rightarrow> nat \<times> nat \<Rightarrow> entry \<Rightarrow> error + bool" where
  "entry_changed prev_fstate key next_hop_decision =
     (case prev_fstate of None \<Rightarrow> Inr True
      | Some prev \<Rightarrow>
          if prev = [] then Inr True
          else (case py_getitem prev key of Inl e \<Rightarrow> Inl e
                | Inr old \<Rightarrow> Inr (old \<noteq> next_hop_decision)))"

definition fstate_line_of :: "nat \<times> nat \<Rightarrow> entry \<Rightarrow> fstate_line" where
  "fstate_line_of key next_hop_decision =
     (fst key, snd key, fst next_hop_decision, fst (snd next_hop_decision),
      snd (snd next_hop_decision))"

definition update_forwarding_state ::
  "fstate option \<Rightarrow> nat \<times> nat \<Rightarrow> entry \<Rightarrow> forwarding \<Rightarrow> (error \<times> forwarding) + forwarding" where
  "update_forwarding_state prev_fstate key next_hop_decision st =
     (case entry_changed prev_fstate key next_hop_decision of Inl e \<Rightarrow> Inl (e, st)
      | Inr changed \<Rightarrow>
          Inr (st\<lparr>f_out := (if changed then f_out st @ [fstate_line_of key next_hop_decision]
                             else f_out st),
                  fstate := py_setitem (fstate st) key next_hop_decision\<rparr>))"

definition satellite_step ::
  "('s, 'g) inputs \<Rightarrow> distance list list \<Rightarrow> fstate option \<Rightarrow> nat \<Rightarrow> nat \<Rightarrow> forwarding \<Rightarrow>
     (error \<times> forwarding) + forwarding" where
  "satellite_step inp D prev_fstate cur dst_gs st =
     (let dst_gs_node_id = length (satellites inp) + dst_gs in
      case satellite_to_ground_station inp D cur dst_gs of Inl e \<Rightarrow> Inl (e, st)
      | Inr (next_hop_decision, distance_to_ground_station_m) \<Rightarrow>
          update_forwarding_state prev_fstate (cur, dst_gs_node_id) next_hop_decision
            (st\<lparr>dist_satellite_to_ground_station :=
                  py_setitem (dist_satellite_to_ground_station st) (cur, dst_gs_node_id)
                    distance_to_ground_station_m\<rparr>))"

definition ground_station_step ::
  "('s, 'g) inputs \<Rightarrow> fstate option \<Rightarrow> nat \<Rightarrow> nat \<Rightarrow> forwarding \<Rightarrow>
     (error \<times> forwarding) + forwarding" where
  "ground_station_step inp prev_fstate src_gid dst_gid st =
     (if src_gid \<noteq> dst_gid
      then (let src_gs_node_id = length (satellites inp) + src_gid;
                dst_gs_node_id = length (satellites inp) + dst_gid in
            case ground_station_to_ground_station inp (dist_satellite_to_ground_station st)
                   src_gid dst_gid of
              Inl e \<Rightarrow> Inl (e, st)
            | Inr next_hop_decision \<Rightarrow>
                update_forwarding_state prev_fstate (src_gs_node_id, dst_gs_node_id)
                  next_hop_decision st)
      else Inr st)"

definition satellites_to_ground_stations ::
  "('s, 'g) inputs \<Rightarrow> distance list list \<Rightarrow> fstate option \<Rightarrow> forwarding \<Rightarrow>
     (error \<times> forwarding) + forwarding" where
  "satellites_to_ground_stations inp D prev_fstate =
     for_each (\<lambda>cur. for_each (satellite_step inp D prev_fstate cur)
                         [0..<length (ground_stations inp)])
       [0..<length (satellites inp)]"

definition ground_stations_to_ground_stations ::
  "('s, 'g) inputs \<Rightarrow> fstate option \<Rightarrow> forwarding \<Rightarrow> (error \<times> forwarding) + forwarding" where
  "ground_stations_to_ground_stations inp prev_fstate =
     for_each (\<lambda>src_gid. for_each (ground_station_step inp prev_fstate src_gid)
                            [0..<length (ground_stations inp)])
       [0..<length (ground_stations inp)]"

definition write_forwarding_state ::
  "('s, 'g) inputs \<Rightarrow> distance list list \<Rightarrow> (error \<times> forwarding) + forwarding" where
  "write_forwarding_state inp D =
     (case satellites_to_ground_stations inp D (prev_output inp)
             \<lparr>dist_satellite_to_ground_station = [], fstate = [], f_out = []\<rparr> of
        Inl es \<Rightarrow> Inl es
      | Inr st \<Rightarrow> ground_stations_to_ground_stations inp (prev_output inp) st)"

subsection \<open>The epoch computation\<close>

definition algorithm_free_one_only_over_isls :: "('s, 'g) inputs \<Rightarrow> outcome" where
  "algorithm_free_one_only_over_isls inp =
     (case check_graph (sat_net_graph_without_gs inp) (length (satellites inp)) of
        Inl e \<Rightarrow> \<lparr>gsl_if_bandwidth_file = None, fstate_file = None, returned = Inl e\<rparr>
      | Inr _ \<Rightarrow>
     (case write_bandwidth_state inp of
        Inl (e, lines) \<Rightarrow>
          \<lparr>gsl_if_bandwidth_file = Some lines, fstate_file = None, returned = Inl e\<rparr>
      | Inr lines \<Rightarrow>
     (case write_forwarding_state inp (floyd_warshall_numpy (sat_net_graph_without_gs inp)) of
        Inl (e, st) \<Rightarrow>
          \<lparr>gsl_if_bandwidth_file = Some lines, fstate_file = Some (f_out st), returned = Inl e\<rparr>
      | Inr st \<Rightarrow>
          \<lparr>gsl_if_bandwidth_file = Some lines, fstate_file = Some (f_out st),
           returned = Inr (fstate st)\<rparr>)))"

section \<open>Notions used in the proofs\<close>

subsection \<open>The shape shared by the two loops\<close>

text \<open>
  Both loop bodies decide an entry for a pair, possibly store a distance, and hand the entry
  to \<open>update_forwarding_state\<close>. \<open>table_step\<close> is that shape; \<open>decided\<close> is the entry a
  successful decision yields, \<open>emitted\<close> says that its line is written, and \<open>step_ok\<close>
  that the iteration raises nothing.
\<close>

definition table_step ::
  "fstate option \<Rightarrow> ('p \<Rightarrow> nat \<times> nat) \<Rightarrow> ('p \<Rightarrow> error + entry \<times> 'x) \<Rightarrow>
     ('p \<Rightarrow> 'x \<Rightarrow> ((nat \<times> nat) \<times> distance) list \<Rightarrow> ((nat \<times> nat) \<times> distance) list) \<Rightarrow>
     'p \<Rightarrow> forwarding \<Rightarrow> (error \<times> forwarding) + forwarding" where
  "table_step prev key decide cache_upd p st =
     (case decide p of Inl e \<Rightarrow> Inl (e, st)
      | Inr r \<Rightarrow>
          update_forwarding_state prev (key p) (fst r)
            (st\<lparr>dist_satellite_to_ground_station :=
                  cache_upd p (snd r) (dist_satellite_to_ground_station st)\<rparr>))"

definition decided :: "('p \<Rightarrow> error + entry \<times> 'x) \<Rightarrow> 'p \<Rightarrow> entry" where
  "decided decide p = fst (projr (decide p))"

definition emitted :: "fstate option \<Rightarrow> ('p \<Rightarrow> nat \<times> nat) \<Rightarrow> ('p \<Rightarrow> error + entry \<times> 'x) \<Rightarrow> 'p \<Rightarrow> bool" where
  "emitted prev key decide p = (entry_changed prev (key p) (decided decide p) = Inr True)"

definition step_ok :: "fstate option \<Rightarrow> ('p \<Rightarrow> nat \<times> nat) \<Rightarrow> ('p \<Rightarrow> error + entry \<times> 'x) \<Rightarrow> 'p \<Rightarrow> bool" where
  "step_ok prev key decide p =
     (\<exists>r c. decide p = Inr r \<and> entry_changed prev (key p) (fst r) = Inr c)"

subsection \<open>The computed pairs and their entries\<close>

text \<open>
  The pairs in the order the two loops visit them, their keys, and what a run that raises
  nothing leaves behind: the cached distances, the table \<open>decisions\<close> and the lines
  \<open>changed_lines\<close> of the entries that count as changed.
\<close>

definition satellite_pairs :: "('s, 'g) inputs \<Rightarrow> (nat \<times> nat) list" where
  "satellite_pairs inp =
     List.product [0..<length (satellites inp)] [0..<length (ground_stations inp)]"

definition ground_station_pairs :: "('s, 'g) inputs \<Rightarrow> (nat \<times> nat) list" where
  "ground_station_pairs inp =
     filter (\<lambda>p. fst p \<noteq> snd p)
       (List.product [0..<length (ground_stations inp)] [0..<length (ground_stations inp)])"

definition sat_key :: "('s, 'g) inputs \<Rightarrow> nat \<times> nat \<Rightarrow> nat \<times> nat" where
  "sat_key inp p = (fst p, length (satellites inp) + snd p)"

definition gs_key :: "('s, 'g) inputs \<Rightarrow> nat \<times> nat \<Rightarrow> nat \<times> nat" where
  "gs_key inp p = (length (satellites inp) + fst p, length (satellites inp) + snd p)"

definition sat_decide ::
  "('s, 'g) inputs \<Rightarrow> distance list list \<Rightarrow> nat \<times> nat \<Rightarrow> error + entry \<times> distance" where
  "sat_decide inp D p = satellite_to_ground_station inp D (fst p) (snd p)"

definition gs_decide ::
  "('s, 'g) inputs \<Rightarrow> ((nat \<times> nat) \<times> distance) list \<Rightarrow> nat \<times> nat \<Rightarrow> error + entry \<times> unit" where
  "gs_decide inp cache p =
     (case ground_station_to_ground_station inp cache (fst p) (snd p) of
        Inl e \<Rightarrow> Inl e | Inr d \<Rightarrow> Inr (d, ()))"

definition sat_cache ::
  "('s, 'g) inputs \<Rightarrow> nat \<times> nat \<Rightarrow> distance \<Rightarrow> ((nat \<times> nat) \<times> distance) list \<Rightarrow>
     ((nat \<times> nat) \<times> distance) list" where
  "sat_cache inp p d C = py_setitem C (sat_key inp p) d"

definition computed_pairs :: "('s, 'g) inputs \<Rightarrow> (nat \<times> nat) list" where
  "computed_pairs inp =
     map (sat_key inp) (satellite_pairs inp) @ map (gs_key inp) (ground_station_pairs inp)"

definition cached_distances ::
  "('s, 'g) inputs \<Rightarrow> distance list list \<Rightarrow> ((nat \<times> nat) \<times> distance) list" where
  "cached_distances inp D =
     map (\<lambda>p. (sat_key inp p, snd (projr (sat_decide inp D p)))) (satellite_pairs inp)"

definition sat_table :: "('s, 'g) inputs \<Rightarrow> distance list list \<Rightarrow> fstate" where
  "sat_table inp D =
     map (\<lambda>p. (sat_key inp p, decided (sat_decide inp D) p)) (satellite_pairs inp)"

definition gs_table :: "('s, 'g) inputs \<Rightarrow> ((nat \<times> nat) \<times> distance) list \<Rightarrow> fstate" where
  "gs_table inp C =
     map (\<lambda>p. (gs_key inp p, decided (gs_decide inp C) p)) (ground_station_pairs inp)"

definition sat_lines ::
  "('s, 'g) inputs \<Rightarrow> distance list list \<Rightarrow> fstate option \<Rightarrow> fstate_line list" where
  "sat_lines inp D prev =
     map (\<lambda>p. fstate_line_of (sat_key inp p) (decided (sat_decide inp D) p))
       (filter (emitted prev (sat_key inp) (sat_decide inp D)) (satellite_pairs inp))"

definition gs_lines ::
  "('s, 'g) inputs \<Rightarrow> ((nat \<times> nat) \<times> distance) list \<Rightarrow> fstate option \<Rightarrow> fstate_line list" where
  "gs_lines inp C prev =
     map (\<lambda>p. fstate_line_of (gs_key inp p) (decided (gs_decide inp C) p))
       (filter (emitted prev (gs_key inp) (gs_decide inp C)) (ground_station_pairs inp))"

definition decisions :: "('s, 'g) inputs \<Rightarrow> distance list list \<Rightarrow> fstate" where
  "decisions inp D = sat_table inp D @ gs_table inp (cached_distances inp D)"

definition changed_lines :: "fstate option \<Rightarrow> fstate \<Rightarrow> fstate_line list" where
  "changed_lines prev T =
     map (\<lambda>kv. fstate_line_of (fst kv) (snd kv))
       (filter (\<lambda>kv. entry_changed prev (fst kv) (snd kv) = Inr True) T)"

definition decisions_ok :: "('s, 'g) inputs \<Rightarrow> distance list list \<Rightarrow> bool" where
  "decisions_ok inp D =
     ((\<forall>p \<in> set (satellite_pairs inp). \<exists>r. sat_decide inp D p = Inr r) \<and>
      (\<forall>p \<in> set (ground_station_pairs inp).
         \<exists>r. gs_decide inp (cached_distances inp D) p = Inr r))"

definition is_changed_line :: "fstate option \<Rightarrow> fstate_line \<Rightarrow> bool" where
  "is_changed_line prev l =
     (\<exists>k v. l = fstate_line_of k v \<and> entry_changed prev k v = Inr True)"

subsection \<open>Nodes, links to ground stations and the kinds of error\<close>

text \<open>\<^verbatim>\<open>n in G\<close>; a satellite with a neighbour whose id is not below \<open>S\<close>; and the
  errors that a failed lookup raises, as opposed to the \<open>ValueError\<close> of the graph check.\<close>

definition has_node :: "graph \<Rightarrow> nat \<Rightarrow> bool" where
  "has_node G n = (map_of G n \<noteq> None)"

definition links_to_ground_station :: "graph \<Rightarrow> nat \<Rightarrow> nat \<Rightarrow> bool" where
  "links_to_ground_station G S sid =
     (case map_of G sid of None \<Rightarrow> False | Some nbrs \<Rightarrow> list_ex (\<lambda>n. n \<ge> S) (map fst nbrs))"

definition lookup_error :: "error \<Rightarrow> bool" where
  "lookup_error e = (e = IndexError \<or> e = KeyError \<or> e = NetworkXError)"

subsection \<open>The selection as the specification words it\<close>

text \<open>
  The specification breaks ties between candidates of equal total cost by the order of the
  visibility list: the candidate of minimum cost that is met first. \<open>first_minimum_cost\<close>
  is that rule, to be compared with \<open>select_possibility\<close>.
\<close>

fun first_minimum_cost :: "(real \<times> nat) list \<Rightarrow> (real \<times> nat) option" where
  "first_minimum_cost [] = None"
| "first_minimum_cost (p # ps) =
     (case first_minimum_cost ps of None \<Rightarrow> Some p
      | Some q \<Rightarrow> if fst p \<le> fst q then Some p else Some q)"

subsection \<open>Shortest paths in the specification's words\<close>








subsection \<open>Example inputs\<close>

text \<open>
  \<open>line_inputs\<close>: three satellites in a line (edges 0-1 and 1-2 of weight 1), ground
  station 3 in range of satellite 0 and ground station 4 in range of satellite 2, both at
  access distance 5; first epoch. \<open>line_fstate\<close> is the table it returns, and
  \<open>stale_inputs\<close> the same inputs with a previous table that holds one key only.
\<close>

definition line_inputs :: "(unit, unit) inputs" where
  "line_inputs = \<lparr>time_since_epoch_ns = 0, satellites = [(), (), ()], ground_stations = [(), ()],
     sat_net_graph_without_gs = [(0, [(1, 1)]), (1, [(0, 1), (2, 1)]), (2, [(1, 1)])],
     ground_station_satellites_in_range = [[(5, 0)], [(5, 2)]],
     num_isls_per_sat = [1, 2, 1],
     sat_neighbor_to_if = [((0, 1), 0), ((1, 0), 0), ((1, 2), 1), ((2, 1), 0)],
     list_gsl_interfaces_info =
       [[(''aggregate_max_bandwidth'', 10)], [(''aggregate_max_bandwidth'', 10)],
        [(''aggregate_max_bandwidth'', 10)], [(''aggregate_max_bandwidth'', 10)],
        [(''aggregate_max_bandwidth'', 10)]],
     prev_output = None\<rparr>"

definition line_fstate :: fstate where
  "line_fstate = [((0, 3), 3, 1, 0), ((0, 4), 1, 0, 0), ((1, 3), 0, 0, 0),
           ((1, 4), 2, 1, 0), ((2, 3), 1, 0, 1), ((2, 4), 4, 1, 0),
           ((3, 4), 0, 0, 1), ((4, 3), 2, 0, 1)]"

definition stale_inputs :: "(unit, unit) inputs" where
  "stale_inputs = line_inputs\<lparr>prev_output := Some [((0, 3), 3, 1, 0)]\<rparr>"

text \<open>
  \<open>far_inputs\<close>: two satellites joined by an edge of weight \<open>2 * 10^15\<close>, the ground station
  in range of satellite 1. \<open>tie_inputs\<close>: satellite 0 joined to satellites 1 and 2 by edges of
  weight 1, the ground station in range of satellite 2 and of satellite 1, in this order,
  both at access distance 5. \<open>gap_inputs\<close>: two satellites, a graph whose two nodes are 1 and
  5, joined by an edge. \<open>link_inputs\<close>: two satellites, a graph whose two nodes are 0 and 5,
  joined by an edge.
\<close>

definition far_inputs :: "(unit, unit) inputs" where
  "far_inputs = \<lparr>time_since_epoch_ns = 1, satellites = [(), ()], ground_stations = [()],
     sat_net_graph_without_gs = [(0, [(1, 2000000000000000)]), (1, [(0, 2000000000000000)])],
     ground_station_satellites_in_range = [[(5, 1)]],
     num_isls_per_sat = [1, 1],
     sat_neighbor_to_if = [((0, 1), 0), ((1, 0), 0)],
     list_gsl_interfaces_info = [],
     prev_output = None\<rparr>"

definition tie_inputs :: "(unit, unit) inputs" where
  "tie_inputs = \<lparr>time_since_epoch_ns = 1, satellites = [(), (), ()], ground_stations = [()],
     sat_net_graph_without_gs = [(0, [(1, 1), (2, 1)]), (1, [(0, 1)]), (2, [(0, 1)])],
     ground_station_satellites_in_range = [[(5, 2), (5, 1)]],
     num_isls_per_sat = [2, 1, 1],
     sat_neighbor_to_if = [((0, 1), 0), ((0, 2), 1), ((1, 0), 0), ((2, 0), 0)],
     list_gsl_interfaces_info = [],
     prev_output = None\<rparr>"

definition gap_inputs :: "(unit, unit) inputs" where
  "gap_inputs = \<lparr>time_since_epoch_ns = 1, satellites = [(), ()], ground_stations = [()],
     sat_net_graph_without_gs = [(1, [(5, 1)]), (5, [(1, 1)])],
     ground_station_satellites_in_range = [[]],
     num_isls_per_sat = [0, 1],
     sat_neighbor_to_if = [((1, 5), 0), ((5, 1), 0)],
     list_gsl_interfaces_info = [],
     prev_output = None\<rparr>"

definition link_inputs :: "(unit, unit) inputs" where
  "link_inputs = \<lparr>time_since_epoch_ns = 0, satellites = [(), ()], ground_stations = [()],
     sat_net_graph_without_gs = [(0, [(5, 1)]), (5, [(0, 1)])],
     ground_station_satellites_in_range = [[]],
     num_isls_per_sat = [1, 0],
     sat_neighbor_to_if = [((0, 5), 0), ((5, 0), 0)],
     list_gsl_interfaces_info = [],
     prev_output = None\<rparr>"


definition previous_fstate :: fstate where
  "previous_fstate = [((0, 3), 3, 1, 0), ((0, 4), - 1, - 1, - 1), ((1, 3), 0, 0, 0),
           ((1, 4), 2, 1, 0), ((2, 3), 1, 0, 1), ((2, 4), 4, 1, 0),
           ((3, 4), 0, 0, 1), ((4, 3), 2, 0, 1)]"

definition changed_inputs :: "(unit, unit) inputs" where
  "changed_inputs = line_inputs\<lparr>time_since_epoch_ns := 100, prev_output := Some previous_fstate\<rparr>"

section \<open>Lemmas\<close>

subsection \<open>Loops, dict updates and the two stages\<close>

lemma for_each_append:
  "for_each body (xs @ ys) s =
     (case for_each body xs s of Inl es \<Rightarrow> Inl es | Inr s' \<Rightarrow> for_each body ys s')"
  by (induction xs arbitrary: s) (auto split: sum.splits)

lemma for_each_nested:
  "for_each (\<lambda>x. for_each (f x) ys) xs s =
     for_each (\<lambda>p. f (fst p) (snd p)) (List.product xs ys) s"
proof (induction xs arbitrary: s)
  case Nil
  show ?case by simp
next
  case (Cons x xs)
  have inner: "for_each (\<lambda>p. f (fst p) (snd p)) (map (Pair x) ys) t = for_each (f x) ys t" for t
    by (induction ys arbitrary: t) (auto split: sum.splits)
  show ?case
    by (simp add: for_each_append inner Cons.IH split: sum.splits)
qed

lemma for_each_filter:
  "for_each (\<lambda>x s. if P x then f x s else Inr s) xs s = for_each f (filter P xs) s"
  by (induction xs arbitrary: s) (auto split: sum.splits)

lemma for_each_cong_inv:
  assumes "I s"
    and "\<And>x t. x \<in> set xs \<Longrightarrow> I t \<Longrightarrow> f x t = g x t"
    and "\<And>x t t'. x \<in> set xs \<Longrightarrow> I t \<Longrightarrow> g x t = Inr t' \<Longrightarrow> I t'"
  shows "for_each f xs s = for_each g xs s"
  using assms
proof (induction xs arbitrary: s)
  case Nil
  show ?case by simp
next
  case (Cons x xs)
  have eq: "f x s = g x s" using Cons.prems by simp
  show ?case
  proof (cases "g x s")
    case (Inl es)
    then show ?thesis using eq by simp
  next
    case (Inr t)
    have "I t" using Cons.prems(3)[of x s t] Cons.prems(1) Inr by simp
    then have "for_each f xs t = for_each g xs t"
      by (rule Cons.IH) (use Cons.prems(2,3) in \<open>simp, simp, blast\<close>)
    then show ?thesis using eq Inr by simp
  qed
qed

lemma map_of_py_setitem: "map_of (py_setitem d k v) = (map_of d)(k \<mapsto> v)"
  by (induction d) (auto simp: fun_eq_iff)

lemma py_setitem_fresh: "k \<notin> fst ` set d \<Longrightarrow> py_setitem d k v = d @ [(k, v)]"
  by (induction d) auto

lemma table_step_Inr:
  "table_step prev key decide cu p st = Inr st' \<Longrightarrow>
     step_ok prev key decide p \<and>
     fstate st' = py_setitem (fstate st) (key p) (decided decide p) \<and>
     f_out st' = f_out st @ (if emitted prev key decide p
                              then [fstate_line_of (key p) (decided decide p)] else []) \<and>
     dist_satellite_to_ground_station st' =
       cu p (snd (projr (decide p))) (dist_satellite_to_ground_station st)"
  by (auto simp: table_step_def update_forwarding_state_def step_ok_def decided_def emitted_def
           split: sum.splits)

lemma table_step_ok:
  "step_ok prev key decide p \<Longrightarrow> \<exists>st'. table_step prev key decide cu p st = Inr st'"
  by (auto simp: table_step_def update_forwarding_state_def step_ok_def split: sum.splits)

lemma table_step_Inl:
  "table_step prev key decide cu p st = Inl (e, st'') \<Longrightarrow>
     f_out st'' = f_out st \<and>
     (decide p = Inl e \<or> (\<exists>r. decide p = Inr r \<and> entry_changed prev (key p) (fst r) = Inl e))"
  by (auto simp: table_step_def update_forwarding_state_def split: sum.splits)

lemma table_loop_Inr:
  "for_each (table_step prev key decide cu) ps st = Inr st' \<Longrightarrow>
     (\<forall>p \<in> set ps. step_ok prev key decide p) \<and>
     fstate st' = foldl (\<lambda>T p. py_setitem T (key p) (decided decide p)) (fstate st) ps \<and>
     f_out st' = f_out st @ map (\<lambda>p. fstate_line_of (key p) (decided decide p))
                              (filter (emitted prev key decide) ps) \<and>
     dist_satellite_to_ground_station st' =
       foldl (\<lambda>C p. cu p (snd (projr (decide p))) C) (dist_satellite_to_ground_station st) ps"
proof (induction ps arbitrary: st)
  case Nil
  then show ?case by simp
next
  case (Cons p ps)
  from Cons.prems obtain st1 where
    s1: "table_step prev key decide cu p st = Inr st1" and
    s2: "for_each (table_step prev key decide cu) ps st1 = Inr st'"
    by (auto split: sum.splits)
  note h = table_step_Inr[OF s1] Cons.IH[OF s2]
  show ?case using h by simp
qed

lemma table_loop_ok:
  "\<forall>p \<in> set ps. step_ok prev key decide p \<Longrightarrow>
     \<exists>st'. for_each (table_step prev key decide cu) ps st = Inr st'"
proof (induction ps arbitrary: st)
  case Nil
  show ?case by simp
next
  case (Cons p ps)
  then obtain st1 where s1: "table_step prev key decide cu p st = Inr st1"
    using table_step_ok[of prev key decide p cu st] by auto
  from Cons obtain st' where "for_each (table_step prev key decide cu) ps st1 = Inr st'"
    by fastforce
  then show ?case using s1 by simp
qed

lemma table_loop_Inl:
  "for_each (table_step prev key decide cu) ps st = Inl (e, st'') \<Longrightarrow>
     \<exists>ps1 p ps2 st1. ps = ps1 @ p # ps2 \<and>
        for_each (table_step prev key decide cu) ps1 st = Inr st1 \<and>
        f_out st'' = f_out st1 \<and>
        (decide p = Inl e \<or> (\<exists>r. decide p = Inr r \<and> entry_changed prev (key p) (fst r) = Inl e))"
proof (induction ps arbitrary: st)
  case Nil
  then show ?case by simp
next
  case (Cons p ps)
  show ?case
  proof (cases "table_step prev key decide cu p st")
    case (Inl es)
    then have "table_step prev key decide cu p st = Inl (e, st'')"
      using Cons.prems by simp
    from table_step_Inl[OF this] have
      "p # ps = [] @ p # ps \<and> for_each (table_step prev key decide cu) [] st = Inr st \<and>
       f_out st'' = f_out st \<and>
       (decide p = Inl e \<or> (\<exists>r. decide p = Inr r \<and> entry_changed prev (key p) (fst r) = Inl e))"
      by simp
    then show ?thesis by blast
  next
    case (Inr st1)
    then have "for_each (table_step prev key decide cu) ps st1 = Inl (e, st'')"
      using Cons.prems by simp
    from Cons.IH[OF this] obtain ps1 q ps2 st2 where
      h: "ps = ps1 @ q # ps2" "for_each (table_step prev key decide cu) ps1 st1 = Inr st2"
         "f_out st'' = f_out st2"
         "decide q = Inl e \<or> (\<exists>r. decide q = Inr r \<and> entry_changed prev (key q) (fst r) = Inl e)"
      by blast
    have "p # ps = (p # ps1) @ q # ps2 \<and>
          for_each (table_step prev key decide cu) (p # ps1) st = Inr st2"
      using h Inr by simp
    then show ?thesis using h(3,4) by blast
  qed
qed

lemma foldl_py_setitem_fresh:
  "distinct (map key ps) \<Longrightarrow> key ` set ps \<inter> fst ` set T = {} \<Longrightarrow>
     foldl (\<lambda>T p. py_setitem T (key p) (v p)) T ps = T @ map (\<lambda>p. (key p, v p)) ps"
proof (induction ps arbitrary: T)
  case Nil
  show ?case by simp
next
  case (Cons p ps)
  have fresh: "key p \<notin> fst ` set T" using Cons.prems(2) by auto
  have "key ` set ps \<inter> fst ` set (T @ [(key p, v p)]) = {}"
    using Cons.prems by auto
  then have "foldl (\<lambda>T p. py_setitem T (key p) (v p)) (T @ [(key p, v p)]) ps =
        (T @ [(key p, v p)]) @ map (\<lambda>p. (key p, v p)) ps"
    using Cons.IH[of "T @ [(key p, v p)]"] Cons.prems(1) by simp
  then show ?case by (simp add: py_setitem_fresh[OF fresh])
qed

lemma satellite_step_table:
  "satellite_step inp D prev (fst p) (snd p) st =
     table_step prev (sat_key inp) (sat_decide inp D) (sat_cache inp) p st"
  by (simp add: satellite_step_def table_step_def sat_key_def sat_decide_def sat_cache_def
           Let_def split: sum.splits prod.splits)

lemma ground_station_step_table:
  "ground_station_step inp prev (fst p) (snd p) st =
     (if fst p \<noteq> snd p
      then table_step prev (gs_key inp) (gs_decide inp (dist_satellite_to_ground_station st))
             (\<lambda>_ _ C. C) p st
      else Inr st)"
  by (simp add: ground_station_step_def table_step_def gs_key_def gs_decide_def Let_def
           split: sum.splits)

lemma update_forwarding_state_cache:
  "update_forwarding_state prev k d st = Inr st' \<Longrightarrow>
     dist_satellite_to_ground_station st' = dist_satellite_to_ground_station st"
  by (auto simp: update_forwarding_state_def split: sum.splits)

lemma satellites_to_ground_stations_table:
  "satellites_to_ground_stations inp D prev st =
     for_each (table_step prev (sat_key inp) (sat_decide inp D) (sat_cache inp))
       (satellite_pairs inp) st"
  unfolding satellites_to_ground_stations_def satellite_pairs_def for_each_nested
  by (rule arg_cong[where f = "\<lambda>b. for_each b _ st"]) (simp add: fun_eq_iff satellite_step_table)

lemma ground_stations_to_ground_stations_table:
  "ground_stations_to_ground_stations inp prev st =
     for_each (table_step prev (gs_key inp) (gs_decide inp (dist_satellite_to_ground_station st))
                 (\<lambda>_ _ C. C))
       (ground_station_pairs inp) st"
proof -
  let ?C = "dist_satellite_to_ground_station st"
  let ?t = "table_step prev (gs_key inp) (gs_decide inp ?C) (\<lambda>_ _ C. C)"
  let ?g = "\<lambda>p s. if fst p \<noteq> snd p then ?t p s else Inr s"
  let ?ps = "List.product [0..<length (ground_stations inp)] [0..<length (ground_stations inp)]"
  have "for_each (\<lambda>p. ground_station_step inp prev (fst p) (snd p)) ?ps st = for_each ?g ?ps st"
  proof (rule for_each_cong_inv[where I = "\<lambda>t. dist_satellite_to_ground_station t = ?C"])
    show "dist_satellite_to_ground_station st = ?C" by simp
  next
    fix x and t :: forwarding
    assume "dist_satellite_to_ground_station t = ?C"
    then show "ground_station_step inp prev (fst x) (snd x) t = ?g x t"
      by (simp add: ground_station_step_table)
  next
    fix x and t t' :: forwarding
    assume a: "dist_satellite_to_ground_station t = ?C" "?g x t = Inr t'"
    show "dist_satellite_to_ground_station t' = ?C"
    proof (cases "fst x \<noteq> snd x")
      case True
      then have "?t x t = Inr t'" using a(2) by simp
      from table_step_Inr[OF this] show ?thesis using a(1) by simp
    next
      case False
      then show ?thesis using a by simp
    qed
  qed
  then show ?thesis
    unfolding ground_stations_to_ground_stations_def ground_station_pairs_def for_each_nested
    by (simp add: for_each_filter)
qed

subsection \<open>The computed pairs\<close>

lemma set_satellite_pairs:
  "set (satellite_pairs inp) =
     {p. fst p < length (satellites inp) \<and> snd p < length (ground_stations inp)}"
  by (auto simp: satellite_pairs_def)

lemma set_ground_station_pairs:
  "set (ground_station_pairs inp) =
     {p. fst p < length (ground_stations inp) \<and> snd p < length (ground_stations inp) \<and>
         fst p \<noteq> snd p}"
  by (auto simp: ground_station_pairs_def)

lemma distinct_satellite_pairs: "distinct (satellite_pairs inp)"
  by (simp add: satellite_pairs_def distinct_product)

lemma distinct_ground_station_pairs: "distinct (ground_station_pairs inp)"
  by (simp add: ground_station_pairs_def distinct_product)

lemma inj_sat_key: "inj (sat_key inp)"
  by (auto simp: inj_on_def sat_key_def prod_eq_iff)

lemma inj_gs_key: "inj (gs_key inp)"
  by (auto simp: inj_on_def gs_key_def prod_eq_iff)

lemma distinct_sat_keys: "distinct (map (sat_key inp) (satellite_pairs inp))"
  by (simp add: distinct_map distinct_satellite_pairs inj_on_subset[OF inj_sat_key])

lemma distinct_gs_keys: "distinct (map (gs_key inp) (ground_station_pairs inp))"
  by (simp add: distinct_map distinct_ground_station_pairs inj_on_subset[OF inj_gs_key])

lemma sat_gs_keys_disjoint:
  "sat_key inp ` set (satellite_pairs inp) \<inter> gs_key inp ` set (ground_station_pairs inp) = {}"
  by (auto simp: set_satellite_pairs set_ground_station_pairs sat_key_def gs_key_def)

lemma distinct_computed_pairs: "distinct (computed_pairs inp)"
  using sat_gs_keys_disjoint[of inp]
  by (simp add: computed_pairs_def distinct_sat_keys distinct_gs_keys)

lemma set_computed_pairs:
  "set (computed_pairs inp) =
     {(cur, length (satellites inp) + g) | cur g.
        cur < length (satellites inp) \<and> g < length (ground_stations inp)} \<union>
     {(length (satellites inp) + g1, length (satellites inp) + g2) | g1 g2.
        g1 < length (ground_stations inp) \<and> g2 < length (ground_stations inp) \<and> g1 \<noteq> g2}"
  by (auto simp: computed_pairs_def set_satellite_pairs set_ground_station_pairs
        sat_key_def gs_key_def image_iff)

lemma length_satellite_pairs:
  "length (satellite_pairs inp) = length (satellites inp) * length (ground_stations inp)"
  by (simp add: satellite_pairs_def)

lemma length_filter_neq_upt: "x < G \<Longrightarrow> length (filter (\<lambda>y. x \<noteq> y) [0..<G]) = G - 1"
proof -
  assume "x < G"
  have "{y. x \<noteq> y} \<inter> set [0..<G] = {0..<G} - {x}" by auto
  then have "length (filter (\<lambda>y. x \<noteq> y) [0..<G]) = card ({0..<G} - {x})"
    by (simp add: distinct_length_filter)
  also have "\<dots> = G - 1" using \<open>x < G\<close> by simp
  finally show ?thesis .
qed

lemma length_filter_product:
  "length (filter P (List.product xs ys)) =
     sum_list (map (\<lambda>x. length (filter (\<lambda>y. P (x, y)) ys)) xs)"
  by (induction xs) (simp_all add: filter_map comp_def)

lemma length_ground_station_pairs:
  "length (ground_station_pairs inp) =
     length (ground_stations inp) * (length (ground_stations inp) - 1)"
proof -
  let ?G = "length (ground_stations inp)"
  have "map (\<lambda>x. length (filter (\<lambda>y. x \<noteq> y) [0..<?G])) [0..<?G] = map (\<lambda>x. ?G - 1) [0..<?G]"
    by (rule map_cong) (simp_all add: length_filter_neq_upt)
  then have "sum_list (map (\<lambda>x. length (filter (\<lambda>y. x \<noteq> y) [0..<?G])) [0..<?G]) =
      sum_list (map (\<lambda>x. ?G - 1) [0..<?G])"
    by (rule arg_cong)
  also have "\<dots> = ?G * (?G - 1)"
    by (simp add: sum_list_triv)
  finally show ?thesis
    by (simp add: ground_station_pairs_def length_filter_product)
qed

lemma length_computed_pairs:
  "length (computed_pairs inp) =
     length (satellites inp) * length (ground_stations inp) +
     length (ground_stations inp) * (length (ground_stations inp) - 1)"
  by (simp add: computed_pairs_def length_satellite_pairs length_ground_station_pairs)

subsection \<open>What a run that raises nothing leaves behind\<close>

lemma stage1_Inr:
  assumes "satellites_to_ground_stations inp D prev
             \<lparr>dist_satellite_to_ground_station = [], fstate = [], f_out = []\<rparr> = Inr st"
  shows "\<forall>p \<in> set (satellite_pairs inp). step_ok prev (sat_key inp) (sat_decide inp D) p"
    and "dist_satellite_to_ground_station st = cached_distances inp D"
    and "fstate st = sat_table inp D"
    and "f_out st = sat_lines inp D prev"
proof -
  note h = table_loop_Inr[OF assms[unfolded satellites_to_ground_stations_table]]
  show "\<forall>p \<in> set (satellite_pairs inp). step_ok prev (sat_key inp) (sat_decide inp D) p"
    using h by simp
  show "fstate st = sat_table inp D"
    using h foldl_py_setitem_fresh[OF distinct_sat_keys, where T = "[]"]
    by (simp add: sat_table_def)
  show "f_out st = sat_lines inp D prev"
    using h by (simp add: sat_lines_def)
  show "dist_satellite_to_ground_station st = cached_distances inp D"
    using h foldl_py_setitem_fresh[OF distinct_sat_keys, where T = "[]"]
    by (simp add: cached_distances_def sat_cache_def)
qed

lemma foldl_const: "foldl (\<lambda>C p. C) C ps = C"
  by (induction ps) simp_all

lemma stage2_Inr:
  assumes "ground_stations_to_ground_stations inp prev st = Inr st'"
    and "fst ` set (fstate st) \<inter> gs_key inp ` set (ground_station_pairs inp) = {}"
  shows "\<forall>p \<in> set (ground_station_pairs inp).
           step_ok prev (gs_key inp) (gs_decide inp (dist_satellite_to_ground_station st)) p"
    and "dist_satellite_to_ground_station st' = dist_satellite_to_ground_station st"
    and "fstate st' = fstate st @ gs_table inp (dist_satellite_to_ground_station st)"
    and "f_out st' = f_out st @ gs_lines inp (dist_satellite_to_ground_station st) prev"
proof -
  let ?C = "dist_satellite_to_ground_station st"
  note h = table_loop_Inr[OF assms(1)[unfolded ground_stations_to_ground_stations_table]]
  show "\<forall>p \<in> set (ground_station_pairs inp). step_ok prev (gs_key inp) (gs_decide inp ?C) p"
    using h by simp
  show "dist_satellite_to_ground_station st' = ?C"
    using h by (simp add: foldl_const)
  have "gs_key inp ` set (ground_station_pairs inp) \<inter> fst ` set (fstate st) = {}"
    using assms(2) by blast
  from foldl_py_setitem_fresh[OF distinct_gs_keys this]
  show "fstate st' = fstate st @ gs_table inp ?C"
    using h by (simp add: gs_table_def)
  show "f_out st' = f_out st @ gs_lines inp ?C prev"
    using h by (simp add: gs_lines_def)
qed

lemma fst_set_sat_table: "fst ` set (sat_table inp D) = sat_key inp ` set (satellite_pairs inp)"
  by (force simp: sat_table_def)

lemma write_forwarding_state_Inr:
  assumes "write_forwarding_state inp D = Inr st"
  shows "\<forall>p \<in> set (satellite_pairs inp).
           step_ok (prev_output inp) (sat_key inp) (sat_decide inp D) p"
    and "\<forall>p \<in> set (ground_station_pairs inp).
           step_ok (prev_output inp) (gs_key inp) (gs_decide inp (cached_distances inp D)) p"
    and "fstate st = sat_table inp D @ gs_table inp (cached_distances inp D)"
    and "f_out st = sat_lines inp D (prev_output inp) @
                    gs_lines inp (cached_distances inp D) (prev_output inp)"
proof -
  from assms obtain st1 where
    s1: "satellites_to_ground_stations inp D (prev_output inp)
           \<lparr>dist_satellite_to_ground_station = [], fstate = [], f_out = []\<rparr> = Inr st1" and
    s2: "ground_stations_to_ground_stations inp (prev_output inp) st1 = Inr st"
    by (auto simp: write_forwarding_state_def split: sum.splits)
  note h1 = stage1_Inr[OF s1]
  have "fst ` set (fstate st1) \<inter> gs_key inp ` set (ground_station_pairs inp) = {}"
    using sat_gs_keys_disjoint[of inp] by (simp add: h1(3) fst_set_sat_table)
  note h2 = stage2_Inr[OF s2 this]
  show "\<forall>p \<in> set (satellite_pairs inp).
           step_ok (prev_output inp) (sat_key inp) (sat_decide inp D) p"
    by (rule h1(1))
  show "\<forall>p \<in> set (ground_station_pairs inp).
           step_ok (prev_output inp) (gs_key inp) (gs_decide inp (cached_distances inp D)) p"
    using h2(1) by (simp add: h1(2))
  show "fstate st = sat_table inp D @ gs_table inp (cached_distances inp D)"
    using h2(3) by (simp add: h1)
  show "f_out st = sat_lines inp D (prev_output inp) @
                    gs_lines inp (cached_distances inp D) (prev_output inp)"
    using h2(4) by (simp add: h1)
qed

lemma write_forwarding_state_ok:
  assumes "\<forall>p \<in> set (satellite_pairs inp).
             step_ok (prev_output inp) (sat_key inp) (sat_decide inp D) p"
    and "\<forall>p \<in> set (ground_station_pairs inp).
           step_ok (prev_output inp) (gs_key inp) (gs_decide inp (cached_distances inp D)) p"
  shows "\<exists>st. write_forwarding_state inp D = Inr st"
proof -
  from table_loop_ok[OF assms(1)] obtain st1 where
    s1: "satellites_to_ground_stations inp D (prev_output inp)
           \<lparr>dist_satellite_to_ground_station = [], fstate = [], f_out = []\<rparr> = Inr st1"
    unfolding satellites_to_ground_stations_table by blast
  have c: "dist_satellite_to_ground_station st1 = cached_distances inp D"
    by (rule stage1_Inr(2)[OF s1])
  from table_loop_ok[OF assms(2)] obtain st2 where
    "ground_stations_to_ground_stations inp (prev_output inp) st1 = Inr st2"
    unfolding ground_stations_to_ground_stations_table c by blast
  then show ?thesis using s1 by (simp add: write_forwarding_state_def)
qed

lemma algorithm_Inr:
  assumes "returned (algorithm_free_one_only_over_isls inp) = Inr T"
  shows "\<exists>lines st.
           check_graph (sat_net_graph_without_gs inp) (length (satellites inp)) = Inr () \<and>
           write_bandwidth_state inp = Inr lines \<and>
           write_forwarding_state inp (floyd_warshall_numpy (sat_net_graph_without_gs inp)) = Inr st \<and>
           T = fstate st \<and>
           algorithm_free_one_only_over_isls inp =
             \<lparr>gsl_if_bandwidth_file = Some lines, fstate_file = Some (f_out st),
              returned = Inr (fstate st)\<rparr>"
  using assms
  by (auto simp: algorithm_free_one_only_over_isls_def split: sum.splits prod.splits)

lemma map_fst_decisions: "map fst (decisions inp D) = computed_pairs inp"
  by (simp add: decisions_def sat_table_def gs_table_def computed_pairs_def comp_def)

lemma changed_lines_append:
  "changed_lines prev (T1 @ T2) = changed_lines prev T1 @ changed_lines prev T2"
  by (simp add: changed_lines_def)

lemma changed_lines_table:
  "changed_lines prev (map (\<lambda>p. (key p, decided decide p)) ps) =
     map (\<lambda>p. fstate_line_of (key p) (decided decide p)) (filter (emitted prev key decide) ps)"
proof -
  have "emitted prev key decide = (\<lambda>p. entry_changed prev (key p) (decided decide p) = Inr True)"
    by (simp add: fun_eq_iff emitted_def)
  then show ?thesis
    by (simp add: changed_lines_def filter_map comp_def)
qed

lemma changed_lines_decisions:
  "changed_lines prev (decisions inp D) =
     sat_lines inp D prev @ gs_lines inp (cached_distances inp D) prev"
  by (simp add: decisions_def changed_lines_append sat_table_def gs_table_def sat_lines_def
        gs_lines_def changed_lines_table)

lemma step_ok_iff:
  "step_ok prev key decide p =
     ((\<exists>r. decide p = Inr r) \<and>
      (\<exists>c. entry_changed prev (key p) (decided decide p) = Inr c))"
  by (cases "decide p") (auto simp: step_ok_def decided_def)

lemma steps_ok_iff:
  "((\<forall>p \<in> set (satellite_pairs inp). step_ok prev (sat_key inp) (sat_decide inp D) p) \<and>
    (\<forall>p \<in> set (ground_station_pairs inp).
        step_ok prev (gs_key inp) (gs_decide inp (cached_distances inp D)) p)) =
   (decisions_ok inp D \<and>
    (\<forall>kv \<in> set (decisions inp D). \<exists>c. entry_changed prev (fst kv) (snd kv) = Inr c))"
  unfolding decisions_ok_def decisions_def sat_table_def gs_table_def step_ok_iff
  by (auto simp: ball_Un)

lemma write_forwarding_state_Inr_iff:
  "(write_forwarding_state inp D = Inr st) =
     (decisions_ok inp D \<and>
      (\<forall>kv \<in> set (decisions inp D).
          \<exists>c. entry_changed (prev_output inp) (fst kv) (snd kv) = Inr c) \<and>
      st = \<lparr>dist_satellite_to_ground_station = cached_distances inp D,
            fstate = decisions inp D,
            f_out = changed_lines (prev_output inp) (decisions inp D)\<rparr>)"
proof
  assume a: "write_forwarding_state inp D = Inr st"
  note h = write_forwarding_state_Inr[OF a]
  from a obtain st1 where
    s1: "satellites_to_ground_stations inp D (prev_output inp)
           \<lparr>dist_satellite_to_ground_station = [], fstate = [], f_out = []\<rparr> = Inr st1" and
    s2: "ground_stations_to_ground_stations inp (prev_output inp) st1 = Inr st"
    by (auto simp: write_forwarding_state_def split: sum.splits)
  have "fst ` set (fstate st1) \<inter> gs_key inp ` set (ground_station_pairs inp) = {}"
    using sat_gs_keys_disjoint[of inp] by (simp add: stage1_Inr(3)[OF s1] fst_set_sat_table)
  from stage2_Inr(2)[OF s2 this]
  have c: "dist_satellite_to_ground_station st = cached_distances inp D"
    by (simp add: stage1_Inr(2)[OF s1])
  have ok: "decisions_ok inp D \<and>
      (\<forall>kv \<in> set (decisions inp D).
          \<exists>c. entry_changed (prev_output inp) (fst kv) (snd kv) = Inr c)"
    using h(1,2) steps_ok_iff[of inp "prev_output inp" D] by blast
  have "st = \<lparr>dist_satellite_to_ground_station = cached_distances inp D,
            fstate = decisions inp D,
            f_out = changed_lines (prev_output inp) (decisions inp D)\<rparr>"
    using c h(3,4) by (cases st) (simp add: changed_lines_decisions decisions_def[symmetric])
  then show "decisions_ok inp D \<and>
      (\<forall>kv \<in> set (decisions inp D).
          \<exists>c. entry_changed (prev_output inp) (fst kv) (snd kv) = Inr c) \<and>
      st = \<lparr>dist_satellite_to_ground_station = cached_distances inp D,
            fstate = decisions inp D,
            f_out = changed_lines (prev_output inp) (decisions inp D)\<rparr>"
    using ok by blast
next
  assume a: "decisions_ok inp D \<and>
      (\<forall>kv \<in> set (decisions inp D).
          \<exists>c. entry_changed (prev_output inp) (fst kv) (snd kv) = Inr c) \<and>
      st = \<lparr>dist_satellite_to_ground_station = cached_distances inp D,
            fstate = decisions inp D,
            f_out = changed_lines (prev_output inp) (decisions inp D)\<rparr>"
  then have "(\<forall>p \<in> set (satellite_pairs inp).
                step_ok (prev_output inp) (sat_key inp) (sat_decide inp D) p) \<and>
             (\<forall>p \<in> set (ground_station_pairs inp).
                step_ok (prev_output inp) (gs_key inp) (gs_decide inp (cached_distances inp D)) p)"
    using steps_ok_iff[of inp "prev_output inp" D] by blast
  then obtain st' where s: "write_forwarding_state inp D = Inr st'"
    using write_forwarding_state_ok[of inp D] by blast
  note h = write_forwarding_state_Inr[OF s]
  from s obtain st1 where
    s1: "satellites_to_ground_stations inp D (prev_output inp)
           \<lparr>dist_satellite_to_ground_station = [], fstate = [], f_out = []\<rparr> = Inr st1" and
    s2: "ground_stations_to_ground_stations inp (prev_output inp) st1 = Inr st'"
    by (auto simp: write_forwarding_state_def split: sum.splits)
  have "fst ` set (fstate st1) \<inter> gs_key inp ` set (ground_station_pairs inp) = {}"
    using sat_gs_keys_disjoint[of inp] by (simp add: stage1_Inr(3)[OF s1] fst_set_sat_table)
  from stage2_Inr(2)[OF s2 this]
  have c: "dist_satellite_to_ground_station st' = cached_distances inp D"
    by (simp add: stage1_Inr(2)[OF s1])
  have "st' = st"
    using c h(3,4) a by (cases st') (simp add: changed_lines_decisions decisions_def[symmetric])
  then show "write_forwarding_state inp D = Inr st" using s by simp
qed

subsection \<open>The epoch computation as a whole\<close>

lemma algorithm_returns_iff:
  "(returned (algorithm_free_one_only_over_isls inp) = Inr T) =
     (check_graph (sat_net_graph_without_gs inp) (length (satellites inp)) = Inr () \<and>
      (\<exists>lines. write_bandwidth_state inp = Inr lines) \<and>
      decisions_ok inp (floyd_warshall_numpy (sat_net_graph_without_gs inp)) \<and>
      (\<forall>kv \<in> set (decisions inp (floyd_warshall_numpy (sat_net_graph_without_gs inp))).
          \<exists>c. entry_changed (prev_output inp) (fst kv) (snd kv) = Inr c) \<and>
      T = decisions inp (floyd_warshall_numpy (sat_net_graph_without_gs inp)))"
proof -
  let ?D = "floyd_warshall_numpy (sat_net_graph_without_gs inp)"
  have "(returned (algorithm_free_one_only_over_isls inp) = Inr T) =
     (check_graph (sat_net_graph_without_gs inp) (length (satellites inp)) = Inr () \<and>
      (\<exists>lines. write_bandwidth_state inp = Inr lines) \<and>
      (\<exists>st. write_forwarding_state inp ?D = Inr st \<and> T = fstate st))"
    by (auto simp: algorithm_free_one_only_over_isls_def split: sum.splits prod.splits)
  then show ?thesis
    by (auto simp: write_forwarding_state_Inr_iff)
qed

lemma algorithm_fstate_file:
  assumes "returned (algorithm_free_one_only_over_isls inp) = Inr T"
  shows "fstate_file (algorithm_free_one_only_over_isls inp) =
           Some (changed_lines (prev_output inp) T)"
proof -
  from algorithm_Inr[OF assms] obtain lines st where
    h: "write_forwarding_state inp (floyd_warshall_numpy (sat_net_graph_without_gs inp)) = Inr st"
       "T = fstate st"
       "algorithm_free_one_only_over_isls inp =
          \<lparr>gsl_if_bandwidth_file = Some lines, fstate_file = Some (f_out st),
           returned = Inr (fstate st)\<rparr>"
    by blast
  from h(1) have "f_out st = changed_lines (prev_output inp) (fstate st)"
    by (simp add: write_forwarding_state_Inr_iff)
  then show ?thesis using h(2,3) by simp
qed

lemma satellite_to_ground_station_prev_output [simp]:
  "satellite_to_ground_station (inp\<lparr>prev_output := x\<rparr>) D cur g =
     satellite_to_ground_station inp D cur g"
  by (simp add: satellite_to_ground_station_def Let_def split: sum.splits option.splits prod.splits)

lemma ground_station_to_ground_station_prev_output [simp]:
  "ground_station_to_ground_station (inp\<lparr>prev_output := x\<rparr>) C g1 g2 =
     ground_station_to_ground_station inp C g1 g2"
  by (simp add: ground_station_to_ground_station_def Let_def
        split: sum.splits option.splits prod.splits)

lemma sat_decide_prev_output [simp]:
  "sat_decide (inp\<lparr>prev_output := x\<rparr>) D = sat_decide inp D"
  by (simp add: fun_eq_iff sat_decide_def)

lemma gs_decide_prev_output [simp]:
  "gs_decide (inp\<lparr>prev_output := x\<rparr>) C = gs_decide inp C"
  by (simp add: fun_eq_iff gs_decide_def)

lemma pairs_prev_output [simp]:
  "satellite_pairs (inp\<lparr>prev_output := x\<rparr>) = satellite_pairs inp"
  "ground_station_pairs (inp\<lparr>prev_output := x\<rparr>) = ground_station_pairs inp"
  "sat_key (inp\<lparr>prev_output := x\<rparr>) = sat_key inp"
  "gs_key (inp\<lparr>prev_output := x\<rparr>) = gs_key inp"
  by (simp_all add: fun_eq_iff satellite_pairs_def ground_station_pairs_def sat_key_def gs_key_def)

lemma cached_distances_prev_output [simp]:
  "cached_distances (inp\<lparr>prev_output := x\<rparr>) D = cached_distances inp D"
  by (simp add: cached_distances_def)

lemma bandwidth_line_prev_output [simp]:
  "satellite_bandwidth_line (inp\<lparr>prev_output := x\<rparr>) = satellite_bandwidth_line inp"
  "ground_station_bandwidth_line (inp\<lparr>prev_output := x\<rparr>) = ground_station_bandwidth_line inp"
  by (simp_all add: fun_eq_iff satellite_bandwidth_line_def ground_station_bandwidth_line_def
        split: sum.splits)

lemma decisions_prev_output [simp]:
  "decisions (inp\<lparr>prev_output := x\<rparr>) D = decisions inp D"
  by (simp add: decisions_def sat_table_def gs_table_def)

lemma decisions_ok_prev_output [simp]:
  "decisions_ok (inp\<lparr>prev_output := x\<rparr>) D = decisions_ok inp D"
  by (simp add: decisions_ok_def)

lemma write_bandwidth_state_prev_output [simp]:
  "write_bandwidth_state (inp\<lparr>prev_output := x\<rparr>) = write_bandwidth_state inp"
  by (simp add: write_bandwidth_state_def Let_def cong: if_cong sum.case_cong)

lemma computed_pairs_prev_output [simp]:
  "computed_pairs (inp\<lparr>prev_output := x\<rparr>) = computed_pairs inp"
  by (simp add: computed_pairs_def)

lemma fstate_line_of_eq [simp]:
  "(fstate_line_of k v = fstate_line_of k' v') = (k = k' \<and> v = v')"
  by (auto simp: fstate_line_of_def prod_eq_iff)

lemma entry_changed_Inl: "entry_changed prev k v = Inl e \<Longrightarrow> e = KeyError"
  by (auto simp: entry_changed_def py_getitem_def split: option.splits if_splits)

lemma entry_changed_True:
  "entry_changed prev k v = Inr c \<Longrightarrow>
     c = (prev = None \<or> (\<exists>P. prev = Some P \<and> map_of P k \<noteq> Some v))"
  by (auto simp: entry_changed_def py_getitem_def split: option.splits if_splits)

lemma entry_changed_same:
  "map_of P k = Some v \<Longrightarrow> entry_changed (Some P) k v = Inr False"
  by (cases P) (auto simp: entry_changed_def py_getitem_def)

lemma entry_changed_present:
  "P \<noteq> [] \<Longrightarrow> entry_changed (Some P) k v = Inr c \<Longrightarrow> k \<in> fst ` set P"
proof -
  assume "P \<noteq> []" "entry_changed (Some P) k v = Inr c"
  then have "k \<in> dom (map_of P)"
    by (auto simp: entry_changed_def py_getitem_def split: option.splits if_splits)
  then show ?thesis by (simp add: dom_map_of_conv_image_fst)
qed

lemma entry_changed_None [simp]: "entry_changed None k v = Inr True"
  by (simp add: entry_changed_def)

lemma distinct_decisions: "distinct (map fst (decisions inp D))"
  by (simp add: map_fst_decisions distinct_computed_pairs)

lemma map_of_decisions:
  "kv \<in> set (decisions inp D) \<Longrightarrow> map_of (decisions inp D) (fst kv) = Some (snd kv)"
  by (cases kv) (simp add: map_of_is_SomeI[OF distinct_decisions])

lemma mem_changed_lines:
  "(fstate_line_of k e \<in> set (changed_lines prev T)) =
     ((k, e) \<in> set T \<and> entry_changed prev k e = Inr True)"
  by (force simp: changed_lines_def)

lemma changed_lines_keys:
  "l \<in> set (changed_lines prev T) \<Longrightarrow>
     (fst l, fst (snd l)) \<in> fst ` set T \<and>
     (\<exists>v. l = fstate_line_of (fst l, fst (snd l)) v \<and>
          entry_changed prev (fst l, fst (snd l)) v = Inr True)"
  by (force simp: changed_lines_def fstate_line_of_def)

lemma table_loop_lines:
  assumes "for_each (table_step prev key decide cu) ps st = Inr st'"
    and "\<forall>l \<in> set (f_out st). is_changed_line prev l"
  shows "\<forall>l \<in> set (f_out st'). is_changed_line prev l"
proof
  fix l assume "l \<in> set (f_out st')"
  then have "l \<in> set (f_out st) \<or>
     (\<exists>p \<in> set ps. emitted prev key decide p \<and> l = fstate_line_of (key p) (decided decide p))"
    using table_loop_Inr[OF assms(1)] by auto
  then show "is_changed_line prev l"
    using assms(2) unfolding is_changed_line_def emitted_def by blast
qed

lemma write_forwarding_state_Inl:
  assumes "write_forwarding_state inp D = Inl (e, st)" and "decisions_ok inp D"
  shows "e = KeyError"
    and "\<forall>l \<in> set (f_out st). is_changed_line (prev_output inp) l"
proof -
  let ?init = "\<lparr>dist_satellite_to_ground_station = [], fstate = [], f_out = []\<rparr>"
  let ?prev = "prev_output inp"
  let ?t1 = "table_step ?prev (sat_key inp) (sat_decide inp D) (sat_cache inp)"
  have "e = KeyError \<and> (\<forall>l \<in> set (f_out st). is_changed_line ?prev l)"
  proof (cases "satellites_to_ground_stations inp D ?prev ?init")
    case (Inl es)
    then have "for_each ?t1 (satellite_pairs inp) ?init = Inl (e, st)"
      using assms(1)
      by (simp add: write_forwarding_state_def satellites_to_ground_stations_table)
    from table_loop_Inl[OF this] obtain ps1 p ps2 st1 where
      h: "satellite_pairs inp = ps1 @ p # ps2"
         "for_each ?t1 ps1 ?init = Inr st1"
         "f_out st = f_out st1"
         "sat_decide inp D p = Inl e \<or>
          (\<exists>r. sat_decide inp D p = Inr r \<and> entry_changed ?prev (sat_key inp p) (fst r) = Inl e)"
      by blast
    have "p \<in> set (satellite_pairs inp)" using h(1) by simp
    then have "\<exists>r. sat_decide inp D p = Inr r"
      using assms(2) by (simp add: decisions_ok_def)
    then have "e = KeyError" using h(4) entry_changed_Inl by fastforce
    moreover have "\<forall>l \<in> set (f_out st). is_changed_line ?prev l"
      using table_loop_lines[OF h(2)] h(3) by simp
    ultimately show ?thesis by simp
  next
    case (Inr st1)
    let ?C = "dist_satellite_to_ground_station st1"
    let ?t2 = "table_step ?prev (gs_key inp) (gs_decide inp ?C) (\<lambda>_ _ C. C)"
    have c: "?C = cached_distances inp D" by (rule stage1_Inr(2)[OF Inr])
    have l1: "\<forall>l \<in> set (f_out st1). is_changed_line ?prev l"
      using table_loop_lines[OF Inr[unfolded satellites_to_ground_stations_table]] by simp
    have "for_each ?t2 (ground_station_pairs inp) st1 = Inl (e, st)"
      using assms(1) Inr
      by (simp add: write_forwarding_state_def ground_stations_to_ground_stations_table)
    from table_loop_Inl[OF this] obtain ps1 p ps2 st2 where
      h: "ground_station_pairs inp = ps1 @ p # ps2"
         "for_each ?t2 ps1 st1 = Inr st2"
         "f_out st = f_out st2"
         "gs_decide inp ?C p = Inl e \<or>
          (\<exists>r. gs_decide inp ?C p = Inr r \<and> entry_changed ?prev (gs_key inp p) (fst r) = Inl e)"
      by blast
    have "p \<in> set (ground_station_pairs inp)" using h(1) by simp
    then have "\<exists>r. gs_decide inp ?C p = Inr r"
      using assms(2) by (simp add: decisions_ok_def c)
    then have "e = KeyError" using h(4) entry_changed_Inl by fastforce
    moreover have "\<forall>l \<in> set (f_out st). is_changed_line ?prev l"
      using table_loop_lines[OF h(2) l1] h(3) by simp
    ultimately show ?thesis by simp
  qed
  then show "e = KeyError"
    and "\<forall>l \<in> set (f_out st). is_changed_line (prev_output inp) l"
    by simp_all
qed

lemma algorithm_after_checks:
  assumes "check_graph (sat_net_graph_without_gs inp) (length (satellites inp)) = Inr ()"
    and "write_bandwidth_state inp = Inr lines"
  shows "algorithm_free_one_only_over_isls inp =
     (case write_forwarding_state inp (floyd_warshall_numpy (sat_net_graph_without_gs inp)) of
        Inl (e, st) \<Rightarrow>
          \<lparr>gsl_if_bandwidth_file = Some lines, fstate_file = Some (f_out st), returned = Inl e\<rparr>
      | Inr st \<Rightarrow>
          \<lparr>gsl_if_bandwidth_file = Some lines, fstate_file = Some (f_out st),
           returned = Inr (fstate st)\<rparr>)"
  using assms by (simp add: algorithm_free_one_only_over_isls_def)

lemma is_changed_line_present:
  assumes "is_changed_line (Some P) l" and "P \<noteq> []"
  shows "map_of P (fst l, fst (snd l)) \<noteq> None"
proof -
  from assms(1) obtain k v where
    l: "l = fstate_line_of k v" and c: "entry_changed (Some P) k v = Inr True"
    unfolding is_changed_line_def by blast
  have "(fst l, fst (snd l)) = k" by (simp add: l fstate_line_of_def)
  moreover have "k \<in> fst ` set P" by (rule entry_changed_present[OF assms(2) c])
  ultimately show ?thesis by (simp add: map_of_eq_None_iff)
qed

lemma changed_lines_are_changed:
  "\<forall>l \<in> set (changed_lines prev T). is_changed_line prev l"
  unfolding is_changed_line_def changed_lines_def by auto

lemma entry_changed_missing:
  "P \<noteq> [] \<Longrightarrow> map_of P k = None \<Longrightarrow> entry_changed (Some P) k v = Inl KeyError"
  by (simp add: entry_changed_def py_getitem_def)

lemma entry_changed_found:
  "map_of P k \<noteq> None \<Longrightarrow> \<exists>c. entry_changed (Some P) k v = Inr c"
  by (auto simp: entry_changed_def py_getitem_def)

subsection \<open>The graph check and the origin of errors\<close>

lemma node_iff: "(sid \<in> fst ` set G) = (map_of G sid \<noteq> None)"
  by (simp add: map_of_eq_None_iff)

lemma has_node_iff: "has_node G n = (n \<in> fst ` set G)"
  by (simp add: has_node_def node_iff)

lemma upt_split_at: "sid < S \<Longrightarrow> [0..<S] = [0..<sid] @ sid # [Suc sid..<S]"
proof -
  assume a: "sid < S"
  have "[0..<sid + (S - sid)] = [0..<sid] @ [sid..<sid + (S - sid)]"
    by (rule upt_add_eq_append) simp
  then show ?thesis using a by (simp add: upt_conv_Cons)
qed

lemma check_satellite_cases:
  "check_satellite G S sid =
     (if sid \<notin> fst ` set G then Inl NetworkXError
      else if links_to_ground_station G S sid
           then Inl (ValueError ''Graph cannot contain satellite-to-ground-station links'')
           else Inr ())"
  by (auto simp: check_satellite_def neighbors_def links_to_ground_station_def
        node_iff split: option.splits)

lemma check_satellites_ValueError:
  "(\<exists>m. check_satellites G S sids = Inl (ValueError m)) =
     (\<exists>ys sid zs. sids = ys @ sid # zs \<and> (\<forall>j \<in> set ys. j \<in> fst ` set G) \<and>
        sid \<in> fst ` set G \<and> links_to_ground_station G S sid)"
proof (induction sids)
  case Nil
  show ?case by simp
next
  case (Cons x xs)
  show ?case
  proof (cases "x \<notin> fst ` set G")
    case True
    have "\<not> (\<exists>ys sid zs. x # xs = ys @ sid # zs \<and> (\<forall>j \<in> set ys. j \<in> fst ` set G) \<and>
        sid \<in> fst ` set G \<and> links_to_ground_station G S sid)"
    proof
      assume "\<exists>ys sid zs. x # xs = ys @ sid # zs \<and> (\<forall>j \<in> set ys. j \<in> fst ` set G) \<and>
        sid \<in> fst ` set G \<and> links_to_ground_station G S sid"
      then obtain ys sid zs where h: "x # xs = ys @ sid # zs" "\<forall>j \<in> set ys. j \<in> fst ` set G"
        "sid \<in> fst ` set G" by blast
      then show False using True by (cases ys) auto
    qed
    then show ?thesis using True by (simp add: check_satellite_cases)
  next
    case False
    note node = this
    show ?thesis
    proof (cases "links_to_ground_station G S x")
      case True
      have "x # xs = [] @ x # xs \<and> (\<forall>j \<in> set []. j \<in> fst ` set G) \<and>
        x \<in> fst ` set G \<and> links_to_ground_station G S x"
        using node True by simp
      then have "\<exists>ys sid zs. x # xs = ys @ sid # zs \<and> (\<forall>j \<in> set ys. j \<in> fst ` set G) \<and>
        sid \<in> fst ` set G \<and> links_to_ground_station G S sid"
        by blast
      then show ?thesis using node True by (simp add: check_satellite_cases)
    next
      case False
      have "(\<exists>ys sid zs. x # xs = ys @ sid # zs \<and> (\<forall>j \<in> set ys. j \<in> fst ` set G) \<and>
               sid \<in> fst ` set G \<and> links_to_ground_station G S sid) =
            (\<exists>ys sid zs. xs = ys @ sid # zs \<and> (\<forall>j \<in> set ys. j \<in> fst ` set G) \<and>
               sid \<in> fst ` set G \<and> links_to_ground_station G S sid)"
      proof
        assume "\<exists>ys sid zs. x # xs = ys @ sid # zs \<and> (\<forall>j \<in> set ys. j \<in> fst ` set G) \<and>
               sid \<in> fst ` set G \<and> links_to_ground_station G S sid"
        then obtain ys sid zs where h: "x # xs = ys @ sid # zs"
          "\<forall>j \<in> set ys. j \<in> fst ` set G" "sid \<in> fst ` set G"
          "links_to_ground_station G S sid" by blast
        then obtain ys' where "ys = x # ys'" using False by (cases ys) auto
        then have "xs = ys' @ sid # zs \<and> (\<forall>j \<in> set ys'. j \<in> fst ` set G)"
          using h by simp
        then show "\<exists>ys sid zs. xs = ys @ sid # zs \<and> (\<forall>j \<in> set ys. j \<in> fst ` set G) \<and>
               sid \<in> fst ` set G \<and> links_to_ground_station G S sid"
          using h(3,4) by blast
      next
        assume "\<exists>ys sid zs. xs = ys @ sid # zs \<and> (\<forall>j \<in> set ys. j \<in> fst ` set G) \<and>
               sid \<in> fst ` set G \<and> links_to_ground_station G S sid"
        then obtain ys sid zs where h: "xs = ys @ sid # zs"
          "\<forall>j \<in> set ys. j \<in> fst ` set G" "sid \<in> fst ` set G"
          "links_to_ground_station G S sid" by blast
        have "x # xs = (x # ys) @ sid # zs \<and> (\<forall>j \<in> set (x # ys). j \<in> fst ` set G)"
          using h node by simp
        then show "\<exists>ys sid zs. x # xs = ys @ sid # zs \<and> (\<forall>j \<in> set ys. j \<in> fst ` set G) \<and>
               sid \<in> fst ` set G \<and> links_to_ground_station G S sid"
          using h(3,4) by blast
      qed
      then show ?thesis using node False Cons.IH by (simp add: check_satellite_cases)
    qed
  qed
qed

lemma upt_split:
  "([0..<S] = ys @ sid # zs) = (sid < S \<and> ys = [0..<sid] \<and> zs = [Suc sid..<S])"
proof
  assume a: "[0..<S] = ys @ sid # zs"
  have len: "length ys < S"
    using arg_cong[OF a, of length] by simp
  have "[0..<S] ! length ys = sid" using a by simp
  then have sid: "sid = length ys" using len by simp
  have "[0..<S] = [0..<sid] @ sid # [Suc sid..<S]"
    using len sid by (simp add: upt_split_at)
  then have "ys @ sid # zs = [0..<sid] @ sid # [Suc sid..<S]" using a by simp
  then have "ys = [0..<sid] \<and> zs = [Suc sid..<S]"
    using sid by (simp add: append_eq_append_conv)
  then show "sid < S \<and> ys = [0..<sid] \<and> zs = [Suc sid..<S]" using len sid by simp
next
  assume a: "sid < S \<and> ys = [0..<sid] \<and> zs = [Suc sid..<S]"
  then show "[0..<S] = ys @ sid # zs" by (simp add: upt_split_at)
qed

lemma prefix_nodes: "((\<forall>j \<in> set [0..<sid]. j \<in> N) \<and> sid \<in> N) = (\<forall>j \<le> sid. j \<in> N)"
  by (auto simp: le_less)

lemma check_graph_ValueError:
  "(\<exists>m. check_graph G S = Inl (ValueError m)) =
     (number_of_nodes G \<noteq> S \<or>
      (\<exists>sid < S. (\<forall>j \<le> sid. j \<in> fst ` set G) \<and>
                 (\<exists>ns. neighbors G sid = Inr ns \<and> (\<exists>n \<in> set ns. S \<le> n))))"
proof (cases "number_of_nodes G \<noteq> S")
  case True
  then show ?thesis by (simp add: check_graph_def)
next
  case False
  have nb: "(\<exists>ns. neighbors G sid = Inr ns \<and> (\<exists>n \<in> set ns. S \<le> n)) =
            (sid \<in> fst ` set G \<and> links_to_ground_station G S sid)" for sid
    by (auto simp: neighbors_def links_to_ground_station_def list_ex_iff node_iff
          split: option.splits)
  have "(\<exists>ys sid zs. [0..<S] = ys @ sid # zs \<and> (\<forall>j \<in> set ys. j \<in> fst ` set G) \<and>
           sid \<in> fst ` set G \<and> links_to_ground_station G S sid) =
        (\<exists>sid < S. (\<forall>j \<le> sid. j \<in> fst ` set G) \<and> links_to_ground_station G S sid)"
    unfolding upt_split using prefix_nodes[of _ "fst ` set G"] by blast
  then show ?thesis
    using False by (simp add: check_graph_def check_satellites_ValueError nb) blast
qed

lemma lookup_error_not_ValueError: "lookup_error e \<Longrightarrow> e \<noteq> ValueError m"
  by (auto simp: lookup_error_def)

lemma py_index_Inl: "py_index xs i = Inl e \<Longrightarrow> lookup_error e"
  by (auto simp: py_index_def lookup_error_def split: if_splits)

lemma py_getitem_Inl: "py_getitem d k = Inl e \<Longrightarrow> lookup_error e"
  by (auto simp: py_getitem_def lookup_error_def split: option.splits)

lemma matrix_at_Inl: "matrix_at A i j = Inl e \<Longrightarrow> lookup_error e"
  by (auto simp: matrix_at_def lookup_error_def split: if_splits)

lemma neighbors_Inl: "neighbors G n = Inl e \<Longrightarrow> lookup_error e"
  by (auto simp: neighbors_def lookup_error_def split: option.splits)

lemma satellite_possibilities_Inl:
  "satellite_possibilities D cur vis = Inl e \<Longrightarrow> lookup_error e"
  by (induction vis) (auto split: sum.splits dest: matrix_at_Inl)

lemma ground_station_possibilities_Inl:
  "ground_station_possibilities C node vis = Inl e \<Longrightarrow> lookup_error e"
  by (induction vis) (auto split: sum.splits dest: py_getitem_Inl)

lemma best_neighbor_Inl:
  "best_neighbor D nif cur dst_sat ns acc = Inl e \<Longrightarrow> lookup_error e"
proof (induction D nif cur dst_sat ns acc rule: best_neighbor.induct)
  case (1 D nif cur dst_sat acc)
  then show ?case by simp
next
  case (2 D nif cur dst_sat n ns next_hop_decision best_dist)
  then show ?case
    by (auto split: sum.splits if_splits dest: matrix_at_Inl py_getitem_Inl)
qed

lemma satellite_to_ground_station_Inl:
  "satellite_to_ground_station inp D cur g = Inl e \<Longrightarrow> lookup_error e"
  by (auto simp: satellite_to_ground_station_def Let_def
        split: sum.splits option.splits prod.splits if_splits
        dest: py_index_Inl satellite_possibilities_Inl neighbors_Inl best_neighbor_Inl)

lemma ground_station_to_ground_station_Inl:
  "ground_station_to_ground_station inp C g1 g2 = Inl e \<Longrightarrow> lookup_error e"
  by (auto simp: ground_station_to_ground_station_def Let_def
        split: sum.splits option.splits prod.splits
        dest: py_index_Inl ground_station_possibilities_Inl)

lemma entry_changed_lookup_error: "entry_changed prev k v = Inl e \<Longrightarrow> lookup_error e"
  by (auto simp: lookup_error_def dest: entry_changed_Inl)

lemma table_loop_error:
  assumes "for_each (table_step prev key decide cu) ps st = Inl (e, st')"
    and "\<And>p e. decide p = Inl e \<Longrightarrow> lookup_error e"
  shows "lookup_error e"
  using table_loop_Inl[OF assms(1)] assms(2) entry_changed_lookup_error by blast

lemma write_forwarding_state_error:
  assumes "write_forwarding_state inp D = Inl (e, st)"
  shows "lookup_error e"
proof (cases "satellites_to_ground_stations inp D (prev_output inp)
               \<lparr>dist_satellite_to_ground_station = [], fstate = [], f_out = []\<rparr>")
  case (Inl es)
  then have "for_each (table_step (prev_output inp) (sat_key inp) (sat_decide inp D) (sat_cache inp))
               (satellite_pairs inp)
               \<lparr>dist_satellite_to_ground_station = [], fstate = [], f_out = []\<rparr> = Inl (e, st)"
    using assms by (simp add: write_forwarding_state_def satellites_to_ground_stations_table)
  then show ?thesis
    by (rule table_loop_error) (auto simp: sat_decide_def dest: satellite_to_ground_station_Inl)
next
  case (Inr st1)
  then have "for_each (table_step (prev_output inp) (gs_key inp)
                  (gs_decide inp (dist_satellite_to_ground_station st1)) (\<lambda>_ _ C. C))
               (ground_station_pairs inp) st1 = Inl (e, st)"
    using assms
    by (simp add: write_forwarding_state_def ground_stations_to_ground_stations_table)
  then show ?thesis
    by (rule table_loop_error)
       (auto simp: gs_decide_def split: sum.splits dest: ground_station_to_ground_station_Inl)
qed

lemma write_lines_error:
  assumes "for_each (write_line mk) xs f = Inl (e, f')"
    and "\<And>x e. mk x = Inl e \<Longrightarrow> lookup_error e"
  shows "lookup_error e"
  using assms
proof (induction xs arbitrary: f)
  case Nil
  then show ?case by simp
next
  case (Cons x xs)
  show ?case
  proof (cases "mk x")
    case (Inl e')
    then have "write_line mk x f = Inl (e', f)" by (simp add: write_line_def)
    then have "e' = e" using Cons.prems(1) by simp
    then show ?thesis using Cons.prems(2) Inl by blast
  next
    case (Inr l)
    then have "write_line mk x f = Inr (f @ [l])" by (simp add: write_line_def)
    then have "for_each (write_line mk) xs (f @ [l]) = Inl (e, f')"
      using Cons.prems(1) by simp
    then show ?thesis by (rule Cons.IH) (rule Cons.prems(2))
  qed
qed

lemma write_bandwidth_state_error:
  assumes "write_bandwidth_state inp = Inl (e, f)"
  shows "lookup_error e"
proof -
  have s: "\<And>x e. satellite_bandwidth_line inp x = Inl e \<Longrightarrow> lookup_error e"
    by (auto simp: satellite_bandwidth_line_def split: sum.splits
          dest: py_index_Inl py_getitem_Inl)
  have g: "\<And>x e. ground_station_bandwidth_line inp x = Inl e \<Longrightarrow> lookup_error e"
    by (auto simp: ground_station_bandwidth_line_def split: sum.splits
          dest: py_index_Inl py_getitem_Inl)
  from assms show ?thesis
    by (auto simp: write_bandwidth_state_def Let_def split: if_splits sum.splits
          dest: write_lines_error[OF _ s] write_lines_error[OF _ g])
qed

lemma algorithm_ValueError:
  "(returned (algorithm_free_one_only_over_isls inp) = Inl (ValueError m)) =
     (check_graph (sat_net_graph_without_gs inp) (length (satellites inp)) = Inl (ValueError m))"
proof (cases "check_graph (sat_net_graph_without_gs inp) (length (satellites inp))")
  case (Inl e)
  then show ?thesis by (simp add: algorithm_free_one_only_over_isls_def)
next
  case chk: (Inr u)
  show ?thesis
  proof (cases "write_bandwidth_state inp")
    case (Inl ef)
    then have "lookup_error (fst ef)"
      using write_bandwidth_state_error[of inp "fst ef" "snd ef"] by simp
    then have "fst ef \<noteq> ValueError m" by (rule lookup_error_not_ValueError)
    then show ?thesis
      using chk Inl by (auto simp: algorithm_free_one_only_over_isls_def split: prod.splits)
  next
    case bw: (Inr lines)
    show ?thesis
    proof (cases "write_forwarding_state inp (floyd_warshall_numpy (sat_net_graph_without_gs inp))")
      case (Inl es)
      then have "lookup_error (fst es)"
        using write_forwarding_state_error[of inp _ "fst es" "snd es"] by simp
      then have "fst es \<noteq> ValueError m" by (rule lookup_error_not_ValueError)
      then show ?thesis
        using chk bw Inl by (auto simp: algorithm_free_one_only_over_isls_def split: prod.splits)
    next
      case (Inr st)
      then show ?thesis
        using chk bw by (simp add: algorithm_free_one_only_over_isls_def)
    qed
  qed
qed

lemma algorithm_check_failed:
  "check_graph (sat_net_graph_without_gs inp) (length (satellites inp)) = Inl e \<Longrightarrow>
     algorithm_free_one_only_over_isls inp =
       \<lparr>gsl_if_bandwidth_file = None, fstate_file = None, returned = Inl e\<rparr>"
  by (simp add: algorithm_free_one_only_over_isls_def)

subsection \<open>Candidates and their selection\<close>

lemma select_possibility_None: "(select_possibility ps = None) = (ps = [])"
proof -
  have "(sort ps = []) = (ps = [])"
    by (metis set_sort set_empty)
  then show ?thesis
    by (cases "sort ps") (auto simp: select_possibility_def)
qed

lemma select_possibility_Some:
  assumes "select_possibility ps = Some p"
  shows "p \<in> set ps" and "\<forall>q \<in> set ps. p \<le> q"
proof -
  from assms obtain rest where s: "sort ps = p # rest"
    by (auto simp: select_possibility_def split: list.splits)
  have "set (p # rest) = set ps" using s by (metis set_sort)
  moreover have "sorted (p # rest)" using s by (metis sorted_sort)
  ultimately show "p \<in> set ps" and "\<forall>q \<in> set ps. p \<le> q"
    by auto
qed

lemma satellite_possibilities_set:
  "satellite_possibilities D cur vis = Inr ps \<Longrightarrow>
     (\<forall>b \<in> set vis. \<exists>d. matrix_at D cur (snd b) = Inr d) \<and>
     set ps = {(x + a, s) | a s x. (a, s) \<in> set vis \<and> matrix_at D cur s = Inr (Finite x)}"
proof (induction vis arbitrary: ps)
  case Nil
  then show ?case by simp
next
  case (Cons b bs)
  from Cons.prems obtain d ps' where
    d: "matrix_at D cur (snd b) = Inr d" and
    r: "satellite_possibilities D cur bs = Inr ps'" and
    ps: "ps = (case d of Infinite \<Rightarrow> ps' | Finite x \<Rightarrow> (x + fst b, snd b) # ps')"
    by (auto split: sum.splits)
  note ih = Cons.IH[OF r]
  have "set ps = {(x + a, s) | a s x. (a, s) \<in> set (b # bs) \<and> matrix_at D cur s = Inr (Finite x)}"
  proof (cases d)
    case (Finite x)
    have "{(x + a, s) | a s x. (a, s) \<in> set (b # bs) \<and> matrix_at D cur s = Inr (Finite x)} =
          insert (x + fst b, snd b)
            {(x + a, s) | a s x. (a, s) \<in> set bs \<and> matrix_at D cur s = Inr (Finite x)}"
      using d Finite by (cases b) auto
    then show ?thesis using ih ps Finite by simp
  next
    case Infinite
    have "{(x + a, s) | a s x. (a, s) \<in> set (b # bs) \<and> matrix_at D cur s = Inr (Finite x)} =
          {(x + a, s) | a s x. (a, s) \<in> set bs \<and> matrix_at D cur s = Inr (Finite x)}"
      using d Infinite by (cases b) auto
    then show ?thesis using ih ps Infinite by simp
  qed
  then show ?case using ih d by auto
qed

lemma ground_station_possibilities_set:
  "ground_station_possibilities C node vis = Inr ps \<Longrightarrow>
     (\<forall>a \<in> set vis. \<exists>d. map_of C (snd a, node) = Some d) \<and>
     set ps = {(a + x, s) | a s x. (a, s) \<in> set vis \<and> map_of C (s, node) = Some (Finite x)}"
proof (induction vis arbitrary: ps)
  case Nil
  then show ?case by simp
next
  case (Cons b bs)
  from Cons.prems obtain d ps' where
    d: "map_of C (snd b, node) = Some d" and
    r: "ground_station_possibilities C node bs = Inr ps'" and
    ps: "ps = (case d of Infinite \<Rightarrow> ps' | Finite x \<Rightarrow> (fst b + x, snd b) # ps')"
    by (auto simp: py_getitem_def split: sum.splits option.splits)
  note ih = Cons.IH[OF r]
  have "set ps = {(a + x, s) | a s x. (a, s) \<in> set (b # bs) \<and> map_of C (s, node) = Some (Finite x)}"
  proof (cases d)
    case (Finite x)
    have "{(a + x, s) | a s x. (a, s) \<in> set (b # bs) \<and> map_of C (s, node) = Some (Finite x)} =
          insert (fst b + x, snd b)
            {(a + x, s) | a s x. (a, s) \<in> set bs \<and> map_of C (s, node) = Some (Finite x)}"
      using d Finite by (cases b) auto
    then show ?thesis using ih ps Finite by simp
  next
    case Infinite
    have "{(a + x, s) | a s x. (a, s) \<in> set (b # bs) \<and> map_of C (s, node) = Some (Finite x)} =
          {(a + x, s) | a s x. (a, s) \<in> set bs \<and> map_of C (s, node) = Some (Finite x)}"
      using d Infinite by (cases b) auto
    then show ?thesis using ih ps Infinite by simp
  qed
  then show ?case using ih d by auto
qed

lemma satellite_to_ground_station_distance:
  assumes "satellite_to_ground_station inp D cur g = Inr (dec, dm)"
  shows "\<exists>vis ps. py_index (ground_station_satellites_in_range inp) g = Inr vis \<and>
           satellite_possibilities D cur vis = Inr ps \<and>
           dm = (case select_possibility ps of None \<Rightarrow> Infinite | Some p \<Rightarrow> Finite (fst p))"
  using assms
  by (auto simp: satellite_to_ground_station_def Let_def
        split: sum.splits option.splits prod.splits if_splits)

lemma ground_station_to_ground_station_entry:
  assumes "ground_station_to_ground_station inp C g1 g2 = Inr e"
  shows "\<exists>vis ps. py_index (ground_station_satellites_in_range inp) g1 = Inr vis \<and>
           ground_station_possibilities C (length (satellites inp) + g2) vis = Inr ps \<and>
           (case select_possibility ps of None \<Rightarrow> e = drop_entry
            | Some p \<Rightarrow> \<exists>k. py_index (num_isls_per_sat inp) (snd p) = Inr k \<and>
                            e = (int (snd p), 0, k))"
  using assms
  by (auto simp: ground_station_to_ground_station_def Let_def
        split: sum.splits option.splits prod.splits)

lemma algorithm_stages:
  assumes "returned (algorithm_free_one_only_over_isls inp) = Inr T"
  shows "\<exists>st1 st2.
           satellites_to_ground_stations inp (floyd_warshall_numpy (sat_net_graph_without_gs inp))
             (prev_output inp)
             \<lparr>dist_satellite_to_ground_station = [], fstate = [], f_out = []\<rparr> = Inr st1 \<and>
           ground_stations_to_ground_stations inp (prev_output inp) st1 = Inr st2 \<and>
           fstate st2 = T \<and>
           dist_satellite_to_ground_station st1 =
             cached_distances inp (floyd_warshall_numpy (sat_net_graph_without_gs inp))"
proof -
  let ?D = "floyd_warshall_numpy (sat_net_graph_without_gs inp)"
  from algorithm_Inr[OF assms] obtain st where
    w: "write_forwarding_state inp ?D = Inr st" and T: "T = fstate st"
    by blast
  from w obtain st1 where
    s1: "satellites_to_ground_stations inp ?D (prev_output inp)
           \<lparr>dist_satellite_to_ground_station = [], fstate = [], f_out = []\<rparr> = Inr st1" and
    s2: "ground_stations_to_ground_stations inp (prev_output inp) st1 = Inr st"
    by (auto simp: write_forwarding_state_def split: sum.splits)
  show ?thesis
    using s1 s2 T stage1_Inr(2)[OF s1] by blast
qed


lemma map_of_decisions_gs:
  assumes "g1 < length (ground_stations inp)" and "g2 < length (ground_stations inp)"
    and "g1 \<noteq> g2"
  shows "map_of (decisions inp D) (length (satellites inp) + g1, length (satellites inp) + g2) =
           Some (fst (projr (gs_decide inp (cached_distances inp D) (g1, g2))))"
proof -
  have "(g1, g2) \<in> set (ground_station_pairs inp)"
    using assms by (simp add: set_ground_station_pairs)
  then have "(gs_key inp (g1, g2), decided (gs_decide inp (cached_distances inp D)) (g1, g2)) \<in>
               set (decisions inp D)"
    unfolding decisions_def gs_table_def by (simp add: image_iff) blast
  from map_of_decisions[OF this] show ?thesis
    by (simp add: gs_key_def decided_def)
qed

lemma map_of_decisions_sat:
  assumes "cur < length (satellites inp)" and "g < length (ground_stations inp)"
  shows "map_of (decisions inp D) (cur, length (satellites inp) + g) =
           Some (fst (projr (satellite_to_ground_station inp D cur g)))"
proof -
  have "(cur, g) \<in> set (satellite_pairs inp)"
    using assms by (simp add: set_satellite_pairs)
  then have "(sat_key inp (cur, g), decided (sat_decide inp D) (cur, g)) \<in> set (decisions inp D)"
    unfolding decisions_def sat_table_def by (simp add: image_iff) blast
  from map_of_decisions[OF this] show ?thesis
    by (simp add: sat_key_def decided_def sat_decide_def)
qed

subsection \<open>The scan of the neighbours\<close>

text \<open>
  What the scan does: no neighbour is strictly below the final \<open>best_dist\<close>; the decision is
  the initial one when no neighbour is strictly below the initial \<open>best_dist\<close>, and otherwise
  it is the first neighbour of minimal sum, with the interface of \<open>cur\<close> towards it and its
  interface towards \<open>cur\<close>.
\<close>

lemma dist_less_trans: "dist_less a b \<Longrightarrow> dist_less b c \<Longrightarrow> dist_less a c"
  by (cases a; cases b; cases c) auto

lemma dist_less_irrefl: "\<not> dist_less a a"
  by (cases a) auto

lemma dist_less_asym: "dist_less a b \<Longrightarrow> \<not> dist_less b a"
  by (cases a; cases b) auto

lemma dist_less_below: "dist_less b b0 \<Longrightarrow> \<not> dist_less s b0 \<Longrightarrow> dist_less b s"
  by (cases b; cases b0; cases s) auto

lemma best_neighbor_scan:
  assumes "best_neighbor D nif cur dst_sat ns (dec0, b0) = Inr (dec, b)"
  shows "(\<forall>n \<in> set ns. \<exists>d1 d2. matrix_at D cur n = Inr d1 \<and> matrix_at D n dst_sat = Inr d2 \<and>
                          \<not> dist_less (dist_add d1 d2) b) \<and>
         ((dec, b) = (dec0, b0) \<or>
          (\<exists>ns1 n ns2 d1 d2 if_out if_in.
              ns = ns1 @ n # ns2 \<and>
              matrix_at D cur n = Inr d1 \<and> matrix_at D n dst_sat = Inr d2 \<and>
              b = dist_add d1 d2 \<and> dist_less b b0 \<and>
              py_getitem nif (cur, n) = Inr if_out \<and> py_getitem nif (n, cur) = Inr if_in \<and>
              dec = (int n, if_out, if_in) \<and>
              (\<forall>m \<in> set ns1. \<exists>e1 e2. matrix_at D cur m = Inr e1 \<and> matrix_at D m dst_sat = Inr e2 \<and>
                                  dist_less b (dist_add e1 e2))))"
  using assms
proof (induction ns arbitrary: dec0 b0)
  case Nil
  then show ?case by simp
next
  case (Cons n ns)
  from Cons.prems obtain d1 d2 where
    d: "matrix_at D cur n = Inr d1" "matrix_at D n dst_sat = Inr d2"
    by (auto split: sum.splits)
  let ?s = "dist_add d1 d2"
  show ?case
  proof (cases "dist_less ?s b0")
    case True
    with Cons.prems d obtain if_out if_in where
      i: "py_getitem nif (cur, n) = Inr if_out" "py_getitem nif (n, cur) = Inr if_in" and
      r: "best_neighbor D nif cur dst_sat ns ((int n, if_out, if_in), ?s) = Inr (dec, b)"
      by (auto split: sum.splits)
    note ih = Cons.IH[OF r]
    from ih have "(dec, b) = ((int n, if_out, if_in), ?s) \<or>
          (\<exists>ns1 n' ns2 e1 e2 io ii.
              ns = ns1 @ n' # ns2 \<and>
              matrix_at D cur n' = Inr e1 \<and> matrix_at D n' dst_sat = Inr e2 \<and>
              b = dist_add e1 e2 \<and> dist_less b ?s \<and>
              py_getitem nif (cur, n') = Inr io \<and> py_getitem nif (n', cur) = Inr ii \<and>
              dec = (int n', io, ii) \<and>
              (\<forall>m \<in> set ns1. \<exists>e1 e2. matrix_at D cur m = Inr e1 \<and> matrix_at D m dst_sat = Inr e2 \<and>
                                  dist_less b (dist_add e1 e2)))"
      by blast
    then show ?thesis
    proof
      assume eq: "(dec, b) = ((int n, if_out, if_in), ?s)"
      have "n # ns = [] @ n # ns" by simp
      moreover have "\<not> dist_less ?s b" using eq by (simp add: dist_less_irrefl)
      ultimately show ?thesis using ih d i eq True by fastforce
    next
      assume "\<exists>ns1 n' ns2 e1 e2 io ii.
              ns = ns1 @ n' # ns2 \<and>
              matrix_at D cur n' = Inr e1 \<and> matrix_at D n' dst_sat = Inr e2 \<and>
              b = dist_add e1 e2 \<and> dist_less b ?s \<and>
              py_getitem nif (cur, n') = Inr io \<and> py_getitem nif (n', cur) = Inr ii \<and>
              dec = (int n', io, ii) \<and>
              (\<forall>m \<in> set ns1. \<exists>e1 e2. matrix_at D cur m = Inr e1 \<and> matrix_at D m dst_sat = Inr e2 \<and>
                                  dist_less b (dist_add e1 e2))"
      then obtain ns1 n' ns2 e1 e2 io ii where
        c: "ns = ns1 @ n' # ns2" "matrix_at D cur n' = Inr e1" "matrix_at D n' dst_sat = Inr e2"
           "b = dist_add e1 e2" "dist_less b ?s"
           "py_getitem nif (cur, n') = Inr io" "py_getitem nif (n', cur) = Inr ii"
           "dec = (int n', io, ii)"
           "\<forall>m \<in> set ns1. \<exists>e1 e2. matrix_at D cur m = Inr e1 \<and> matrix_at D m dst_sat = Inr e2 \<and>
                                  dist_less b (dist_add e1 e2)"
        by blast
      have lt: "dist_less b b0" using c(5) True by (rule dist_less_trans)
      have ns: "\<not> dist_less ?s b" using c(5) by (rule dist_less_asym)
      have split: "n # ns = (n # ns1) @ n' # ns2" using c(1) by simp
      have before: "\<forall>m \<in> set (n # ns1). \<exists>e1 e2. matrix_at D cur m = Inr e1 \<and>
                      matrix_at D m dst_sat = Inr e2 \<and> dist_less b (dist_add e1 e2)"
        using c(9) c(5) d by simp
      have all: "\<forall>m \<in> set (n # ns). \<exists>d1 d2. matrix_at D cur m = Inr d1 \<and>
                   matrix_at D m dst_sat = Inr d2 \<and> \<not> dist_less (dist_add d1 d2) b"
        using ih d ns by simp
      show ?thesis
        using all split c(2,3,4,6,7,8) lt before by blast
    qed
  next
    case False
    with Cons.prems d have
      r: "best_neighbor D nif cur dst_sat ns (dec0, b0) = Inr (dec, b)"
      by (auto split: sum.splits)
    note ih = Cons.IH[OF r]
    from ih have "(dec, b) = (dec0, b0) \<or>
          (\<exists>ns1 n' ns2 e1 e2 io ii.
              ns = ns1 @ n' # ns2 \<and>
              matrix_at D cur n' = Inr e1 \<and> matrix_at D n' dst_sat = Inr e2 \<and>
              b = dist_add e1 e2 \<and> dist_less b b0 \<and>
              py_getitem nif (cur, n') = Inr io \<and> py_getitem nif (n', cur) = Inr ii \<and>
              dec = (int n', io, ii) \<and>
              (\<forall>m \<in> set ns1. \<exists>e1 e2. matrix_at D cur m = Inr e1 \<and> matrix_at D m dst_sat = Inr e2 \<and>
                                  dist_less b (dist_add e1 e2)))"
      by blast
    then show ?thesis
    proof
      assume eq: "(dec, b) = (dec0, b0)"
      then have "\<not> dist_less ?s b" using False by simp
      then show ?thesis using ih d eq by simp
    next
      assume "\<exists>ns1 n' ns2 e1 e2 io ii.
              ns = ns1 @ n' # ns2 \<and>
              matrix_at D cur n' = Inr e1 \<and> matrix_at D n' dst_sat = Inr e2 \<and>
              b = dist_add e1 e2 \<and> dist_less b b0 \<and>
              py_getitem nif (cur, n') = Inr io \<and> py_getitem nif (n', cur) = Inr ii \<and>
              dec = (int n', io, ii) \<and>
              (\<forall>m \<in> set ns1. \<exists>e1 e2. matrix_at D cur m = Inr e1 \<and> matrix_at D m dst_sat = Inr e2 \<and>
                                  dist_less b (dist_add e1 e2))"
      then obtain ns1 n' ns2 e1 e2 io ii where
        c: "ns = ns1 @ n' # ns2" "matrix_at D cur n' = Inr e1" "matrix_at D n' dst_sat = Inr e2"
           "b = dist_add e1 e2" "dist_less b b0"
           "py_getitem nif (cur, n') = Inr io" "py_getitem nif (n', cur) = Inr ii"
           "dec = (int n', io, ii)"
           "\<forall>m \<in> set ns1. \<exists>e1 e2. matrix_at D cur m = Inr e1 \<and> matrix_at D m dst_sat = Inr e2 \<and>
                                  dist_less b (dist_add e1 e2)"
        by blast
      have bs: "dist_less b ?s" using c(5) False by (rule dist_less_below)
      have ns: "\<not> dist_less ?s b" using bs by (rule dist_less_asym)
      have split: "n # ns = (n # ns1) @ n' # ns2" using c(1) by simp
      have before: "\<forall>m \<in> set (n # ns1). \<exists>e1 e2. matrix_at D cur m = Inr e1 \<and>
                      matrix_at D m dst_sat = Inr e2 \<and> dist_less b (dist_add e1 e2)"
        using c(9) bs d by simp
      have all: "\<forall>m \<in> set (n # ns). \<exists>d1 d2. matrix_at D cur m = Inr d1 \<and>
                   matrix_at D m dst_sat = Inr d2 \<and> \<not> dist_less (dist_add d1 d2) b"
        using ih d ns by simp
      show ?thesis
        using all split c(2,3,4,5,6,7,8) before by blast
    qed
  qed
qed

lemma satellite_to_ground_station_cases:
  assumes "satellite_to_ground_station inp D cur g = Inr (dec, dm)"
  shows "\<exists>vis ps. py_index (ground_station_satellites_in_range inp) g = Inr vis \<and>
           satellite_possibilities D cur vis = Inr ps \<and>
           (case select_possibility ps of
              None \<Rightarrow> dec = drop_entry
            | Some p \<Rightarrow>
                if cur \<noteq> snd p
                then \<exists>ns b. neighbors (sat_net_graph_without_gs inp) cur = Inr ns \<and>
                       best_neighbor D (sat_neighbor_to_if inp) cur (snd p) ns
                         (drop_entry, Finite 1000000000000000) = Inr (dec, b)
                else \<exists>k. py_index (num_isls_per_sat inp) (snd p) = Inr k \<and>
                       dec = (int (length (satellites inp) + g), k, 0))"
  using assms
  by (auto simp: satellite_to_ground_station_def Let_def
        split: sum.splits option.splits prod.splits if_splits)

lemma next_hop_is_first_minimal_neighbor:
  assumes "satellite_to_ground_station inp D cur g = Inr (dec, dm)"
    and "py_index (ground_station_satellites_in_range inp) g = Inr vis"
    and "satellite_possibilities D cur vis = Inr ps"
    and "select_possibility ps = Some (c, dst_sat)"
    and "cur \<noteq> dst_sat"
  shows "\<exists>ns. neighbors (sat_net_graph_without_gs inp) cur = Inr ns \<and>
           ((dec = drop_entry \<and>
             (\<forall>n \<in> set ns. \<exists>d1 d2. matrix_at D cur n = Inr d1 \<and> matrix_at D n dst_sat = Inr d2 \<and>
                \<not> dist_less (dist_add d1 d2) (Finite 1000000000000000))) \<or>
            (\<exists>ns1 n ns2 d1 d2 if_out if_in.
               ns = ns1 @ n # ns2 \<and>
               matrix_at D cur n = Inr d1 \<and> matrix_at D n dst_sat = Inr d2 \<and>
               dist_less (dist_add d1 d2) (Finite 1000000000000000) \<and>
               py_getitem (sat_neighbor_to_if inp) (cur, n) = Inr if_out \<and>
               py_getitem (sat_neighbor_to_if inp) (n, cur) = Inr if_in \<and>
               dec = (int n, if_out, if_in) \<and>
               (\<forall>m \<in> set ns1. \<exists>e1 e2. matrix_at D cur m = Inr e1 \<and>
                  matrix_at D m dst_sat = Inr e2 \<and> dist_less (dist_add d1 d2) (dist_add e1 e2)) \<and>
               (\<forall>m \<in> set ns. \<exists>e1 e2. matrix_at D cur m = Inr e1 \<and>
                  matrix_at D m dst_sat = Inr e2 \<and> \<not> dist_less (dist_add e1 e2) (dist_add d1 d2))))"
proof -
  from satellite_to_ground_station_cases[OF assms(1)] assms(2,3,4,5) obtain ns b where
    n: "neighbors (sat_net_graph_without_gs inp) cur = Inr ns" and
    b: "best_neighbor D (sat_neighbor_to_if inp) cur dst_sat ns
          (drop_entry, Finite 1000000000000000) = Inr (dec, b)"
    by auto
  note scan = best_neighbor_scan[OF b]
  from scan have "(dec, b) = (drop_entry, Finite 1000000000000000) \<or>
          (\<exists>ns1 n ns2 d1 d2 if_out if_in.
              ns = ns1 @ n # ns2 \<and>
              matrix_at D cur n = Inr d1 \<and> matrix_at D n dst_sat = Inr d2 \<and>
              b = dist_add d1 d2 \<and> dist_less b (Finite 1000000000000000) \<and>
              py_getitem (sat_neighbor_to_if inp) (cur, n) = Inr if_out \<and>
              py_getitem (sat_neighbor_to_if inp) (n, cur) = Inr if_in \<and>
              dec = (int n, if_out, if_in) \<and>
              (\<forall>m \<in> set ns1. \<exists>e1 e2. matrix_at D cur m = Inr e1 \<and> matrix_at D m dst_sat = Inr e2 \<and>
                                  dist_less b (dist_add e1 e2)))"
    by blast
  then show ?thesis
  proof
    assume "(dec, b) = (drop_entry, Finite 1000000000000000)"
    then show ?thesis using scan n by auto
  next
    assume "\<exists>ns1 n ns2 d1 d2 if_out if_in.
              ns = ns1 @ n # ns2 \<and>
              matrix_at D cur n = Inr d1 \<and> matrix_at D n dst_sat = Inr d2 \<and>
              b = dist_add d1 d2 \<and> dist_less b (Finite 1000000000000000) \<and>
              py_getitem (sat_neighbor_to_if inp) (cur, n) = Inr if_out \<and>
              py_getitem (sat_neighbor_to_if inp) (n, cur) = Inr if_in \<and>
              dec = (int n, if_out, if_in) \<and>
              (\<forall>m \<in> set ns1. \<exists>e1 e2. matrix_at D cur m = Inr e1 \<and> matrix_at D m dst_sat = Inr e2 \<and>
                                  dist_less b (dist_add e1 e2))"
    then obtain ns1 k ns2 d1 d2 if_out if_in where
      c: "ns = ns1 @ k # ns2" "matrix_at D cur k = Inr d1" "matrix_at D k dst_sat = Inr d2"
         "b = dist_add d1 d2" "dist_less b (Finite 1000000000000000)"
         "py_getitem (sat_neighbor_to_if inp) (cur, k) = Inr if_out"
         "py_getitem (sat_neighbor_to_if inp) (k, cur) = Inr if_in"
         "dec = (int k, if_out, if_in)"
         "\<forall>m \<in> set ns1. \<exists>e1 e2. matrix_at D cur m = Inr e1 \<and> matrix_at D m dst_sat = Inr e2 \<and>
                                  dist_less b (dist_add e1 e2)"
      by blast
    have all: "\<forall>m \<in> set ns. \<exists>e1 e2. matrix_at D cur m = Inr e1 \<and>
                  matrix_at D m dst_sat = Inr e2 \<and> \<not> dist_less (dist_add e1 e2) (dist_add d1 d2)"
      using scan c(4) by simp
    have "\<exists>ns1 n ns2 d1 d2 if_out if_in.
               ns = ns1 @ n # ns2 \<and>
               matrix_at D cur n = Inr d1 \<and> matrix_at D n dst_sat = Inr d2 \<and>
               dist_less (dist_add d1 d2) (Finite 1000000000000000) \<and>
               py_getitem (sat_neighbor_to_if inp) (cur, n) = Inr if_out \<and>
               py_getitem (sat_neighbor_to_if inp) (n, cur) = Inr if_in \<and>
               dec = (int n, if_out, if_in) \<and>
               (\<forall>m \<in> set ns1. \<exists>e1 e2. matrix_at D cur m = Inr e1 \<and>
                  matrix_at D m dst_sat = Inr e2 \<and> dist_less (dist_add d1 d2) (dist_add e1 e2)) \<and>
               (\<forall>m \<in> set ns. \<exists>e1 e2. matrix_at D cur m = Inr e1 \<and>
                  matrix_at D m dst_sat = Inr e2 \<and> \<not> dist_less (dist_add e1 e2) (dist_add d1 d2))"
      using c(1,2,3,6,7,8) c(5,9)[unfolded c(4)] all by blast
    then show ?thesis using n by blast
  qed
qed

lemma no_candidate_gives_drop_entry:
  assumes "satellite_to_ground_station inp D cur g = Inr (dec, dm)"
    and "py_index (ground_station_satellites_in_range inp) g = Inr vis"
    and "\<forall>a s x. (a, s) \<in> set vis \<longrightarrow> matrix_at D cur s \<noteq> Inr (Finite x)"
  shows "dec = drop_entry \<and> dm = Infinite"
proof -
  from satellite_to_ground_station_cases[OF assms(1)] assms(2) obtain ps where
    p: "satellite_possibilities D cur vis = Inr ps" and
    c: "case select_possibility ps of None \<Rightarrow> dec = drop_entry | Some p \<Rightarrow> True"
    by (auto split: option.splits)
  have "set ps = {}"
    using satellite_possibilities_set[OF p] assms(3) by auto
  then have n: "select_possibility ps = None" by (simp add: select_possibility_None)
  from satellite_to_ground_station_distance[OF assms(1)] assms(2) p n
  have "dm = Infinite" by auto
  then show ?thesis using c n by simp
qed

subsection \<open>The table of a returning run, and the distances it caches\<close>

lemma lines_of_returned_table:
  assumes "returned (algorithm_free_one_only_over_isls inp) = Inr T"
  shows "\<exists>lines. fstate_file (algorithm_free_one_only_over_isls inp) = Some lines \<and>
           map fst T = computed_pairs inp \<and>
           (\<forall>k \<in> set (computed_pairs inp). \<exists>v. map_of T k = Some v \<and>
              (\<forall>e. (fstate_line_of k e \<in> set lines) =
                    (e = v \<and> (prev_output inp = None \<or>
                              (\<exists>P. prev_output inp = Some P \<and> map_of P k \<noteq> Some v)))))"
proof -
  let ?D = "floyd_warshall_numpy (sat_net_graph_without_gs inp)"
  let ?prev = "prev_output inp"
  have T: "T = decisions inp ?D"
    and ok: "\<forall>kv \<in> set (decisions inp ?D). \<exists>c. entry_changed ?prev (fst kv) (snd kv) = Inr c"
    using assms by (simp_all add: algorithm_returns_iff)
  have keys: "map fst T = computed_pairs inp"
    by (simp add: T map_fst_decisions)
  have dist: "distinct (map fst T)"
    by (simp add: keys distinct_computed_pairs)
  have outfile: "fstate_file (algorithm_free_one_only_over_isls inp) = Some (changed_lines ?prev T)"
    by (rule algorithm_fstate_file[OF assms])
  have "\<exists>v. map_of T k = Some v \<and>
              (\<forall>e. (fstate_line_of k e \<in> set (changed_lines ?prev T)) =
                    (e = v \<and> (?prev = None \<or> (\<exists>P. ?prev = Some P \<and> map_of P k \<noteq> Some v))))"
    if "k \<in> set (computed_pairs inp)" for k
  proof -
    from that keys have "k \<in> fst ` set T" by (metis set_map)
    then obtain v where v: "(k, v) \<in> set T" by auto
    then have m: "map_of T k = Some v" using dist by simp
    from v ok T obtain c where c: "entry_changed ?prev k v = Inr c" by fastforce
    have mem: "(k, e) \<in> set T \<longleftrightarrow> e = v" for e
      using m dist v by (metis map_of_is_SomeI option.inject)
    have "(fstate_line_of k e \<in> set (changed_lines ?prev T)) =
          (e = v \<and> (?prev = None \<or> (\<exists>P. ?prev = Some P \<and> map_of P k \<noteq> Some v)))" for e
      using entry_changed_True[OF c] c mem[of e] by (auto simp: mem_changed_lines)
    then show ?thesis using m by blast
  qed
  then show ?thesis using outfile keys by blast
qed


subsection \<open>The distance matrix holds shortest-path distances\<close>































subsection \<open>The example inputs, evaluated\<close>

lemma line_inputs_returned:
  "returned (algorithm_free_one_only_over_isls line_inputs) = Inr line_fstate"
  by code_simp

lemma line_inputs_stage1:
  "satellites_to_ground_stations line_inputs
     (floyd_warshall_numpy (sat_net_graph_without_gs line_inputs)) (prev_output line_inputs)
     \<lparr>dist_satellite_to_ground_station = [], fstate = [], f_out = []\<rparr> =
   Inr \<lparr>dist_satellite_to_ground_station =
        [((0, 3), Finite 5), ((0, 4), Finite 7), ((1, 3), Finite 6),
         ((1, 4), Finite 6), ((2, 3), Finite 7), ((2, 4), Finite 5)],
        fstate =
          [((0, 3), 3, 1, 0), ((0, 4), 1, 0, 0), ((1, 3), 0, 0, 0),
           ((1, 4), 2, 1, 0), ((2, 3), 1, 0, 1), ((2, 4), 4, 1, 0)],
        f_out =
          [(0, 3, 3, 1, 0), (0, 4, 1, 0, 0), (1, 3, 0, 0, 0),
           (1, 4, 2, 1, 0), (2, 3, 1, 0, 1), (2, 4, 4, 1, 0)]\<rparr>"
  by code_simp

lemma tie_possibilities:
  "satellite_possibilities (floyd_warshall_numpy (sat_net_graph_without_gs tie_inputs)) 0
     [(5, 2), (5, 1)] = Inr [(6, 2), (6, 1)]"
  by code_simp

lemma tie_selection: "select_possibility [(6, 2), (6, 1)] = Some (6, 1)"
  by code_simp

lemma link_inputs_run:
  "algorithm_free_one_only_over_isls link_inputs =
     \<lparr>gsl_if_bandwidth_file = None, fstate_file = None,
      returned = Inl (ValueError ''Graph cannot contain satellite-to-ground-station links'')\<rparr>"
  by code_simp


lemma changed_inputs_first:
  "returned (algorithm_free_one_only_over_isls (changed_inputs\<lparr>prev_output := None\<rparr>)) =
     Inr line_fstate"
  by code_simp

lemma changed_inputs_pairs:
  "computed_pairs changed_inputs = [(0, 3), (0, 4), (1, 3), (1, 4), (2, 3), (2, 4), (3, 4), (4, 3)]"
  by code_simp

section \<open>The claims\<close>

subsection \<open>The table and the emitted record\<close>

text \<open>
  Claim C9. With \<open>S\<close> satellites and \<open>G\<close> ground stations, the keys of the returned table are
  the \<open>S * G\<close> pairs (satellite, ground station) and the \<open>G * (G - 1)\<close> ordered pairs of
  distinct ground stations, each once; no pair (ground station, itself) and no pair of two
  satellites is a key, and every line of the forwarding-state file belongs to a key of the
  table.
\<close>

theorem forwarding_table_key_set:
  assumes "returned (algorithm_free_one_only_over_isls inp) = Inr T"
  shows "fst ` set T =
           {(cur, length (satellites inp) + g) | cur g.
              cur < length (satellites inp) \<and> g < length (ground_stations inp)} \<union>
           {(length (satellites inp) + g1, length (satellites inp) + g2) | g1 g2.
              g1 < length (ground_stations inp) \<and> g2 < length (ground_stations inp) \<and> g1 \<noteq> g2} \<and>
         distinct (map fst T) \<and>
         length T = length (satellites inp) * length (ground_stations inp) +
                    length (ground_stations inp) * (length (ground_stations inp) - 1) \<and>
         (\<forall>g. (length (satellites inp) + g, length (satellites inp) + g) \<notin> fst ` set T) \<and>
         (\<forall>a b. a < length (satellites inp) \<and> b < length (satellites inp) \<longrightarrow>
                (a, b) \<notin> fst ` set T) \<and>
         (\<exists>lines. fstate_file (algorithm_free_one_only_over_isls inp) = Some lines \<and>
                  (\<forall>l \<in> set lines. (fst l, fst (snd l)) \<in> fst ` set T))"
proof -
  let ?D = "floyd_warshall_numpy (sat_net_graph_without_gs inp)"
  have T: "T = decisions inp ?D"
    using assms by (simp add: algorithm_returns_iff)
  have keys: "map fst T = computed_pairs inp"
    by (simp add: T map_fst_decisions)
  have set_keys: "fst ` set T = set (computed_pairs inp)"
    using keys by (metis set_map)
  have len: "length T = length (computed_pairs inp)"
    using keys by (metis length_map)
  have outfile: "fstate_file (algorithm_free_one_only_over_isls inp) =
                Some (changed_lines (prev_output inp) T)"
    by (rule algorithm_fstate_file[OF assms])
  have lines: "\<forall>l \<in> set (changed_lines (prev_output inp) T). (fst l, fst (snd l)) \<in> fst ` set T"
    using changed_lines_keys by blast
  have self: "\<forall>g. (length (satellites inp) + g, length (satellites inp) + g) \<notin> fst ` set T"
    unfolding set_keys set_computed_pairs by auto
  have sats: "\<forall>a b. a < length (satellites inp) \<and> b < length (satellites inp) \<longrightarrow>
                (a, b) \<notin> fst ` set T"
    unfolding set_keys set_computed_pairs by auto
  show ?thesis
    using set_keys keys len outfile lines self sats
    by (simp add: set_computed_pairs distinct_computed_pairs length_computed_pairs)
qed

text \<open>
  Claim C9 on \<open>line_inputs\<close>: three satellites and two ground stations give eight entries.
\<close>

theorem forwarding_table_key_set_witness:
  "returned (algorithm_free_one_only_over_isls line_inputs) = Inr line_fstate \<and>
   length line_fstate = 3 * 2 + 2 * (2 - 1) \<and> distinct (map fst line_fstate) \<and>
   (3, 3) \<notin> fst ` set line_fstate"
  using forwarding_table_key_set[OF line_inputs_returned] line_inputs_returned
  by (simp add: line_inputs_def)

text \<open>
  Claim C6, as stated, fails. In \<open>stale_inputs\<close> a previous table is supplied that holds the
  key \<open>(0, 3)\<close> only. The entry computed for \<open>(0, 4)\<close> is \<open>(1, 0, 0)\<close>, and the previous table
  holds nothing at \<open>(0, 4)\<close>, so that the entry is new; yet no line is written for it, and no
  table is returned: the read of the previous table raises \<open>KeyError\<close>.
\<close>

theorem new_key_raises_instead_of_emitting:
  "prev_output stale_inputs = Some [((0, 3), 3, 1, 0)] \<and>
   map_of [((0::nat, 3::nat), 3::int, 1::int, 0::int)] (0, 4) = None \<and>
   satellite_to_ground_station stale_inputs
     (floyd_warshall_numpy (sat_net_graph_without_gs stale_inputs)) 0 1 =
     Inr ((1, 0, 0), Finite 7) \<and>
   fstate_file (algorithm_free_one_only_over_isls stale_inputs) = Some [] \<and>
   returned (algorithm_free_one_only_over_isls stale_inputs) = Inl KeyError"
  by code_simp

text \<open>
  Claim C6, amended. Take inputs on which the epoch computation returns a table \<open>T\<close> when no
  previous output is supplied, and let a supplied previous table be empty or hold every
  computed key. Then the computation returns \<open>T\<close>, whose keys are exactly the computed pairs,
  so that the returned state holds every entry, changed or not; and for a computed pair \<open>k\<close>
  with entry \<open>v\<close>, a line for \<open>k\<close> is in the forwarding-state file exactly when it is the
  line of \<open>v\<close> and either no previous output was supplied or the previous table does not
  hold \<open>v\<close> at \<open>k\<close>.
\<close>

theorem emitted_iff_changed_when_keys_present:
  assumes "returned (algorithm_free_one_only_over_isls (inp\<lparr>prev_output := None\<rparr>)) = Inr T"
    and "\<And>P k. prev_output inp = Some P \<Longrightarrow> P \<noteq> [] \<Longrightarrow> k \<in> set (computed_pairs inp) \<Longrightarrow>
           map_of P k \<noteq> None"
  shows "returned (algorithm_free_one_only_over_isls inp) = Inr T \<and>
         map fst T = computed_pairs inp \<and>
         (\<exists>lines. fstate_file (algorithm_free_one_only_over_isls inp) = Some lines \<and>
            (\<forall>k \<in> set (computed_pairs inp). \<exists>v. map_of T k = Some v \<and>
               (\<forall>e. (fstate_line_of k e \<in> set lines) =
                     (e = v \<and> (prev_output inp = None \<or>
                               (\<exists>P. prev_output inp = Some P \<and> map_of P k \<noteq> Some v))))))"
proof -
  let ?D = "floyd_warshall_numpy (sat_net_graph_without_gs inp)"
  note h = assms(1)[unfolded algorithm_returns_iff, simplified]
  have chk: "check_graph (sat_net_graph_without_gs inp) (length (satellites inp)) = Inr ()"
    using h by simp
  obtain bw where bw: "write_bandwidth_state inp = Inr bw" using h by blast
  have dok: "decisions_ok inp ?D" using h by simp
  have T: "T = decisions inp ?D" using h by simp
  have keys: "fst ` set T = set (computed_pairs inp)"
    using map_fst_decisions[of inp ?D] T by (metis set_map)
  have "\<exists>c. entry_changed (prev_output inp) (fst kv) (snd kv) = Inr c"
    if kv: "kv \<in> set (decisions inp ?D)" for kv
  proof (cases "prev_output inp")
    case None
    then show ?thesis by auto
  next
    case (Some P)
    show ?thesis
    proof (cases "P = []")
      case True
      then show ?thesis using Some by (auto simp: entry_changed_def)
    next
      case False
      have "fst kv \<in> set (computed_pairs inp)" using kv keys T by force
      then have "map_of P (fst kv) \<noteq> None" using assms(2)[OF Some False] by blast
      then show ?thesis using entry_changed_found Some by simp
    qed
  qed
  then have ret: "returned (algorithm_free_one_only_over_isls inp) = Inr T"
    using chk bw dok T by (simp add: algorithm_returns_iff)
  from lines_of_returned_table[OF ret] show ?thesis using ret by blast
qed

text \<open>
  Claim C6, amended, on \<open>changed_inputs\<close>: the previous table differs at \<open>(0, 4)\<close> only; the
  line of \<open>(0, 4)\<close> is written and the line of \<open>(0, 3)\<close> is not.
\<close>

theorem emitted_iff_changed_when_keys_present_witness:
  "returned (algorithm_free_one_only_over_isls (changed_inputs\<lparr>prev_output := None\<rparr>)) =
     Inr line_fstate \<and>
   prev_output changed_inputs = Some previous_fstate \<and>
   returned (algorithm_free_one_only_over_isls changed_inputs) = Inr line_fstate \<and>
   (\<exists>lines. fstate_file (algorithm_free_one_only_over_isls changed_inputs) = Some lines \<and>
      fstate_line_of (0, 4) (1, 0, 0) \<in> set lines \<and>
      fstate_line_of (0, 3) (3, 1, 0) \<notin> set lines)"
proof -
  have p: "prev_output changed_inputs = Some previous_fstate"
    by (simp add: changed_inputs_def)
  have present: "map_of P k \<noteq> None"
    if "prev_output changed_inputs = Some P" "P \<noteq> []" "k \<in> set (computed_pairs changed_inputs)"
    for P k
  proof -
    have "P = previous_fstate" using that(1) p by simp
    then show ?thesis using that(3) unfolding changed_inputs_pairs
      by (auto simp: previous_fstate_def)
  qed
  note t = emitted_iff_changed_when_keys_present[OF changed_inputs_first present]
  then obtain lines where
    f: "fstate_file (algorithm_free_one_only_over_isls changed_inputs) = Some lines" and
    a: "\<forall>k \<in> set (computed_pairs changed_inputs). \<exists>v. map_of line_fstate k = Some v \<and>
          (\<forall>e. (fstate_line_of k e \<in> set lines) =
                (e = v \<and> (prev_output changed_inputs = None \<or>
                   (\<exists>P. prev_output changed_inputs = Some P \<and> map_of P k \<noteq> Some v))))"
    by blast
  have k4: "(0, 4) \<in> set (computed_pairs changed_inputs)"
    and k3: "(0, 3) \<in> set (computed_pairs changed_inputs)"
    by (simp_all add: changed_inputs_pairs)
  have m4: "map_of line_fstate (0, 4) = Some (1, 0, 0)"
    and m3: "map_of line_fstate (0, 3) = Some (3, 1, 0)"
    by (simp_all add: line_fstate_def)
  have o4: "map_of previous_fstate (0, 4) \<noteq> Some (1, 0, 0)"
    and o3: "map_of previous_fstate (0, 3) = Some (3, 1, 0)"
    by (simp_all add: previous_fstate_def)
  from a k4 m4 p o4 have in4: "fstate_line_of (0, 4) (1, 0, 0) \<in> set lines" by fastforce
  from a k3 m3 p o3 have out3: "fstate_line_of (0, 3) (3, 1, 0) \<notin> set lines" by fastforce
  show ?thesis using changed_inputs_first p t f in4 out3 by blast
qed

text \<open>
  Claim C7. When the epoch computation returns the table \<open>T\<close>, running it again on the same
  inputs with \<open>T\<close> as the previous state writes no line to the forwarding-state file, and
  returns \<open>T\<close> again.
\<close>

theorem second_run_emits_nothing:
  assumes "returned (algorithm_free_one_only_over_isls inp) = Inr T"
  shows "fstate_file (algorithm_free_one_only_over_isls (inp\<lparr>prev_output := Some T\<rparr>)) = Some [] \<and>
         returned (algorithm_free_one_only_over_isls (inp\<lparr>prev_output := Some T\<rparr>)) = Inr T"
proof -
  let ?D = "floyd_warshall_numpy (sat_net_graph_without_gs inp)"
  let ?inp' = "inp\<lparr>prev_output := Some T\<rparr>"
  note h = assms[unfolded algorithm_returns_iff]
  have T: "T = decisions inp ?D" using h by simp
  have same: "entry_changed (Some T) (fst kv) (snd kv) = Inr False" if "kv \<in> set T" for kv
    using that map_of_decisions[of kv inp ?D] by (simp add: T entry_changed_same)
  then have ret: "returned (algorithm_free_one_only_over_isls ?inp') = Inr T"
    using h by (simp add: algorithm_returns_iff) (metis T)
  have "changed_lines (Some T) T = []"
    using same by (simp add: changed_lines_def filter_empty_conv)
  then show ?thesis
    using algorithm_fstate_file[OF ret] ret by simp
qed

text \<open>
  Claim C7 on \<open>line_inputs\<close>.
\<close>

theorem second_run_emits_nothing_witness:
  "returned (algorithm_free_one_only_over_isls line_inputs) = Inr line_fstate \<and>
   fstate_file (algorithm_free_one_only_over_isls (line_inputs\<lparr>prev_output := Some line_fstate\<rparr>))
     = Some []"
  using second_run_emits_nothing[OF line_inputs_returned] line_inputs_returned by simp

text \<open>
  Claim C10. Take inputs on which the epoch computation returns a table \<open>T\<close> when no previous
  output is supplied, and supply a non-empty previous table \<open>P\<close>. If \<open>P\<close> lacks the key of a
  computed pair, the computation raises \<open>KeyError\<close>; otherwise it returns \<open>T\<close>. In both cases no
  line is written for a key that \<open>P\<close> lacks: the missing entry is not emitted as new.
\<close>

theorem missing_previous_key_raises:
  assumes "returned (algorithm_free_one_only_over_isls (inp\<lparr>prev_output := None\<rparr>)) = Inr T"
    and "prev_output inp = Some P"
    and "P \<noteq> []"
  shows "returned (algorithm_free_one_only_over_isls inp) =
           (if \<exists>k \<in> set (computed_pairs inp). map_of P k = None then Inl KeyError else Inr T) \<and>
         (\<exists>lines. fstate_file (algorithm_free_one_only_over_isls inp) = Some lines \<and>
                  (\<forall>l \<in> set lines. map_of P (fst l, fst (snd l)) \<noteq> None))"
proof -
  let ?D = "floyd_warshall_numpy (sat_net_graph_without_gs inp)"
  note h = assms(1)[unfolded algorithm_returns_iff, simplified]
  have chk: "check_graph (sat_net_graph_without_gs inp) (length (satellites inp)) = Inr ()"
    using h by simp
  obtain bw where bw: "write_bandwidth_state inp = Inr bw" using h by blast
  have dok: "decisions_ok inp ?D" using h by simp
  have T: "T = decisions inp ?D" using h by simp
  have keys: "fst ` set T = set (computed_pairs inp)"
    using map_fst_decisions[of inp ?D] T by (metis set_map)
  note alg = algorithm_after_checks[OF chk bw]
  show ?thesis
  proof (cases "\<exists>k \<in> set (computed_pairs inp). map_of P k = None")
    case True
    then obtain k v where kv: "(k, v) \<in> set T" "map_of P k = None"
      using keys by fastforce
    have bad: "entry_changed (prev_output inp) k v = Inl KeyError"
      using entry_changed_missing[OF assms(3) kv(2)] assms(2) by simp
    have "\<not> (\<exists>st. write_forwarding_state inp ?D = Inr st)"
    proof
      assume "\<exists>st. write_forwarding_state inp ?D = Inr st"
      then have "\<forall>kv \<in> set (decisions inp ?D).
          \<exists>c. entry_changed (prev_output inp) (fst kv) (snd kv) = Inr c"
        by (auto simp: write_forwarding_state_Inr_iff)
      then show False using kv(1) bad T by fastforce
    qed
    then obtain e st where f: "write_forwarding_state inp ?D = Inl (e, st)"
      by (cases "write_forwarding_state inp ?D") auto
    note w = write_forwarding_state_Inl[OF f dok]
    have "\<forall>l \<in> set (f_out st). map_of P (fst l, fst (snd l)) \<noteq> None"
      using w(2) is_changed_line_present[OF _ assms(3)] assms(2) by simp
    then show ?thesis using True alg f w(1) by simp
  next
    case False
    have "\<forall>kv \<in> set (decisions inp ?D).
          \<exists>c. entry_changed (prev_output inp) (fst kv) (snd kv) = Inr c"
    proof
      fix kv assume "kv \<in> set (decisions inp ?D)"
      then have "fst kv \<in> set (computed_pairs inp)"
        using keys T by force
      then have "map_of P (fst kv) \<noteq> None" using False by auto
      then show "\<exists>c. entry_changed (prev_output inp) (fst kv) (snd kv) = Inr c"
        using entry_changed_found assms(2) by simp
    qed
    then have ret: "returned (algorithm_free_one_only_over_isls inp) = Inr T"
      using chk bw dok T by (simp add: algorithm_returns_iff)
    have "\<forall>l \<in> set (changed_lines (prev_output inp) T). map_of P (fst l, fst (snd l)) \<noteq> None"
      using changed_lines_are_changed[of "prev_output inp" T]
        is_changed_line_present[OF _ assms(3)] assms(2) by simp
    then show ?thesis
      using False ret algorithm_fstate_file[OF ret] by simp
  qed
qed

text \<open>
  Claim C10 on \<open>stale_inputs\<close>, whose previous table holds the key \<open>(0, 3)\<close> only.
\<close>

theorem missing_previous_key_raises_witness:
  "returned (algorithm_free_one_only_over_isls (stale_inputs\<lparr>prev_output := None\<rparr>)) = Inr line_fstate \<and>
   prev_output stale_inputs = Some [((0, 3), 3, 1, 0)] \<and>
   returned (algorithm_free_one_only_over_isls stale_inputs) = Inl KeyError"
proof -
  have e: "stale_inputs\<lparr>prev_output := None\<rparr> = line_inputs"
    by (simp add: stale_inputs_def line_inputs_def)
  have r: "returned (algorithm_free_one_only_over_isls (stale_inputs\<lparr>prev_output := None\<rparr>)) =
             Inr line_fstate"
    by (simp only: e line_inputs_returned)
  have p: "prev_output stale_inputs = Some [((0, 3), 3, 1, 0)]"
    by (simp add: stale_inputs_def)
  have n: "[((0::nat, 3::nat), 3::int, 1::int, 0::int)] \<noteq> []" by simp
  have k: "(0, 4) \<in> set (computed_pairs stale_inputs)" by code_simp
  have "\<exists>k \<in> set (computed_pairs stale_inputs). map_of [((0::nat, 3::nat), 3::int, 1::int, 0::int)] k = None"
    using k by (intro bexI[of _ "(0, 4)"]) simp_all
  then show ?thesis
    using missing_previous_key_raises[OF r p n] r p by simp
qed

subsection \<open>The decisions\<close>




text \<open>
  Claim C3. Let the epoch computation return the table \<open>T\<close>, and let \<open>g1\<close> and \<open>g2\<close> be distinct
  ground stations. The entry of \<open>(S + g1, S + g2)\<close> is the drop entry exactly when no satellite
  of \<open>g1\<close>'s visibility list has a finite cached distance to \<open>S + g2\<close>; otherwise it is
  \<open>(s, 0, num_isls_per_sat[s])\<close> for a satellite \<open>s\<close> of the list whose access distance plus
  cached distance is at most that of every other satellite of the list.
\<close>

theorem ground_station_entry:
  assumes "returned (algorithm_free_one_only_over_isls inp) = Inr T"
    and "g1 < length (ground_stations inp)" and "g2 < length (ground_stations inp)"
    and "g1 \<noteq> g2"
  shows "\<exists>st1 vis e.
           satellites_to_ground_stations inp (floyd_warshall_numpy (sat_net_graph_without_gs inp))
             (prev_output inp)
             \<lparr>dist_satellite_to_ground_station = [], fstate = [], f_out = []\<rparr> = Inr st1 \<and>
           py_index (ground_station_satellites_in_range inp) g1 = Inr vis \<and>
           map_of T (length (satellites inp) + g1, length (satellites inp) + g2) = Some e \<and>
           ((e = drop_entry) =
              (\<forall>a s x. (a, s) \<in> set vis \<longrightarrow>
                 map_of (dist_satellite_to_ground_station st1) (s, length (satellites inp) + g2)
                   \<noteq> Some (Finite x))) \<and>
           (e \<noteq> drop_entry \<longrightarrow>
              (\<exists>a s x k. (a, s) \<in> set vis \<and>
                 map_of (dist_satellite_to_ground_station st1) (s, length (satellites inp) + g2)
                   = Some (Finite x) \<and>
                 py_index (num_isls_per_sat inp) s = Inr k \<and>
                 e = (int s, 0, k) \<and>
                 (\<forall>a' s' x'. (a', s') \<in> set vis \<and>
                    map_of (dist_satellite_to_ground_station st1)
                      (s', length (satellites inp) + g2) = Some (Finite x') \<longrightarrow>
                    a + x \<le> a' + x')))"
proof -
  let ?D = "floyd_warshall_numpy (sat_net_graph_without_gs inp)"
  let ?n = "length (satellites inp) + g2"
  from algorithm_stages[OF assms(1)] obtain st1 st2 where
    st: "satellites_to_ground_stations inp ?D (prev_output inp)
           \<lparr>dist_satellite_to_ground_station = [], fstate = [], f_out = []\<rparr> = Inr st1"
        "dist_satellite_to_ground_station st1 = cached_distances inp ?D"
    by blast
  let ?C = "dist_satellite_to_ground_station st1"
  have ok: "decisions_ok inp ?D" and T: "T = decisions inp ?D"
    using assms(1) by (simp_all add: algorithm_returns_iff)
  have "(g1, g2) \<in> set (ground_station_pairs inp)"
    using assms(2,3,4) by (simp add: set_ground_station_pairs)
  then obtain e where d: "ground_station_to_ground_station inp ?C g1 g2 = Inr e"
    using ok unfolding decisions_ok_def gs_decide_def st(2) by (fastforce split: sum.splits)
  have m: "map_of T (length (satellites inp) + g1, ?n) = Some e"
    using map_of_decisions_gs[OF assms(2,3,4), of ?D] d by (simp add: T gs_decide_def st(2))
  from ground_station_to_ground_station_entry[OF d] obtain vis ps where
    v: "py_index (ground_station_satellites_in_range inp) g1 = Inr vis"
       "ground_station_possibilities ?C ?n vis = Inr ps"
       "case select_possibility ps of None \<Rightarrow> e = drop_entry
        | Some p \<Rightarrow> \<exists>k. py_index (num_isls_per_sat inp) (snd p) = Inr k \<and> e = (int (snd p), 0, k)"
    by blast
  note S = ground_station_possibilities_set[OF v(2)]
  have body: "((e = drop_entry) =
              (\<forall>a s x. (a, s) \<in> set vis \<longrightarrow> map_of ?C (s, ?n) \<noteq> Some (Finite x))) \<and>
           (e \<noteq> drop_entry \<longrightarrow>
              (\<exists>a s x k. (a, s) \<in> set vis \<and> map_of ?C (s, ?n) = Some (Finite x) \<and>
                 py_index (num_isls_per_sat inp) s = Inr k \<and> e = (int s, 0, k) \<and>
                 (\<forall>a' s' x'. (a', s') \<in> set vis \<and> map_of ?C (s', ?n) = Some (Finite x') \<longrightarrow>
                    a + x \<le> a' + x')))"
  proof (cases "select_possibility ps")
    case None
    then have "ps = []" by (simp add: select_possibility_None)
    then have "{(a + x, s) | a s x. (a, s) \<in> set vis \<and> map_of ?C (s, ?n) = Some (Finite x)} = {}"
      using S by simp
    then have "\<forall>a s x. (a, s) \<in> set vis \<longrightarrow> map_of ?C (s, ?n) \<noteq> Some (Finite x)"
      by blast
    then show ?thesis using None v(3) by simp
  next
    case (Some p)
    obtain c s where p: "p = (c, s)" by (cases p)
    note sel = select_possibility_Some[OF Some]
    from v(3) Some p obtain k where
      k: "py_index (num_isls_per_sat inp) s = Inr k" "e = (int s, 0, k)"
      by auto
    have nd: "e \<noteq> drop_entry" using k(2) by (simp add: drop_entry_def)
    have "(c, s) \<in> {(a + x, s) | a s x. (a, s) \<in> set vis \<and> map_of ?C (s, ?n) = Some (Finite x)}"
      using sel(1) S p by simp
    then obtain a x where ax: "(a, s) \<in> set vis" "map_of ?C (s, ?n) = Some (Finite x)" "c = a + x"
      by blast
    have "a + x \<le> a' + x'"
      if "(a', s') \<in> set vis" "map_of ?C (s', ?n) = Some (Finite x')" for a' s' x'
    proof -
      have "(a' + x', s') \<in> set ps" using that S by blast
      then have "(c, s) \<le> (a' + x', s')" using sel(2) p by blast
      then show ?thesis using ax(3) by (auto simp: less_eq_prod_simp)
    qed
    then have le: "\<forall>a' s' x'. (a', s') \<in> set vis \<and> map_of ?C (s', ?n) = Some (Finite x') \<longrightarrow>
                    a + x \<le> a' + x'"
      by blast
    have "\<exists>a s x k. (a, s) \<in> set vis \<and> map_of ?C (s, ?n) = Some (Finite x) \<and>
                 py_index (num_isls_per_sat inp) s = Inr k \<and> e = (int s, 0, k) \<and>
                 (\<forall>a' s' x'. (a', s') \<in> set vis \<and> map_of ?C (s', ?n) = Some (Finite x') \<longrightarrow>
                    a + x \<le> a' + x')"
      using ax(1,2) k le by blast
    moreover have "\<not> (\<forall>a s x. (a, s) \<in> set vis \<longrightarrow> map_of ?C (s, ?n) \<noteq> Some (Finite x))"
      using ax(1,2) by blast
    ultimately show ?thesis using nd by blast
  qed
  from st(1) v(1) m body show ?thesis
    by (intro exI[of _ st1] exI[of _ vis] exI[of _ e]) simp
qed

text \<open>
  Claim C3 on \<open>line_inputs\<close>: ground station 3 reaches ground station 4 through satellite 0.
\<close>

theorem ground_station_entry_witness:
  "returned (algorithm_free_one_only_over_isls line_inputs) = Inr line_fstate \<and>
   (0::nat) < length (ground_stations line_inputs) \<and>
   (1::nat) < length (ground_stations line_inputs) \<and>
   map_of line_fstate (3, 4) = Some (0, 0, 1) \<and>
   (\<exists>a x. (a, 0) \<in> set [(5::real, 0::nat)] \<and>
      map_of [((0::nat, 3::nat), Finite 5), ((0, 4), Finite 7), ((1, 3), Finite 6),
              ((1, 4), Finite 6), ((2, 3), Finite 7), ((2, 4), Finite 5)] (0, 4)
        = Some (Finite x))"
proof -
  have l: "(0::nat) < length (ground_stations line_inputs)"
          "(1::nat) < length (ground_stations line_inputs)"
          "length (satellites line_inputs) = 3"
    by (simp_all add: line_inputs_def)
  have v: "py_index (ground_station_satellites_in_range line_inputs) 0 = Inr [(5, 0)]"
    by (simp add: line_inputs_def py_index_def)
  have m: "map_of line_fstate (3, 4) = Some (0, 0, 1)"
    by (simp add: line_fstate_def)
  have n: "(0::nat) \<noteq> 1" by simp
  from ground_station_entry[OF line_inputs_returned l(1,2) n] obtain st1 vis e where
    h: "satellites_to_ground_stations line_inputs
          (floyd_warshall_numpy (sat_net_graph_without_gs line_inputs)) (prev_output line_inputs)
          \<lparr>dist_satellite_to_ground_station = [], fstate = [], f_out = []\<rparr> = Inr st1"
       "py_index (ground_station_satellites_in_range line_inputs) 0 = Inr vis"
       "map_of line_fstate (length (satellites line_inputs) + 0, length (satellites line_inputs) + 1)
          = Some e"
       "e \<noteq> drop_entry \<longrightarrow>
          (\<exists>a s x k. (a, s) \<in> set vis \<and>
             map_of (dist_satellite_to_ground_station st1) (s, length (satellites line_inputs) + 1)
               = Some (Finite x) \<and>
             py_index (num_isls_per_sat line_inputs) s = Inr k \<and> e = (int s, 0, k) \<and>
             (\<forall>a' s' x'. (a', s') \<in> set vis \<and>
                map_of (dist_satellite_to_ground_station st1)
                  (s', length (satellites line_inputs) + 1) = Some (Finite x') \<longrightarrow>
                a + x \<le> a' + x'))"
    by blast
  have e: "e = (0, 0, 1)" using h(3) m l(3) by simp
  then have "e \<noteq> drop_entry" by (simp add: drop_entry_def)
  moreover have "vis = [(5, 0)]" using h(2) v by simp
  moreover have "dist_satellite_to_ground_station st1 =
      [((0, 3), Finite 5), ((0, 4), Finite 7), ((1, 3), Finite 6),
       ((1, 4), Finite 6), ((2, 3), Finite 7), ((2, 4), Finite 5)]"
  proof -
    have "(Inr st1 :: (error \<times> forwarding) + forwarding) = Inr \<lparr>dist_satellite_to_ground_station =
        [((0, 3), Finite 5), ((0, 4), Finite 7), ((1, 3), Finite 6),
         ((1, 4), Finite 6), ((2, 3), Finite 7), ((2, 4), Finite 5)],
        fstate =
          [((0, 3), 3, 1, 0), ((0, 4), 1, 0, 0), ((1, 3), 0, 0, 0),
           ((1, 4), 2, 1, 0), ((2, 3), 1, 0, 1), ((2, 4), 4, 1, 0)],
        f_out =
          [(0, 3, 3, 1, 0), (0, 4, 1, 0, 0), (1, 3, 0, 0, 0),
           (1, 4, 2, 1, 0), (2, 3, 1, 0, 1), (2, 4, 4, 1, 0)]\<rparr>"
      by (rule trans[OF h(1)[symmetric] line_inputs_stage1])
    then show ?thesis by (simp only: sum.inject forwarding.select_convs)
  qed
  ultimately have "\<exists>a x. (a, 0) \<in> set [(5::real, 0::nat)] \<and>
      map_of [((0::nat, 3::nat), Finite 5), ((0, 4), Finite 7), ((1, 3), Finite 6),
              ((1, 4), Finite 6), ((2, 3), Finite 7), ((2, 4), Finite 5)] (0, 4)
        = Some (Finite x)"
    using h(4) l(3) by auto
  then show ?thesis using line_inputs_returned l(1,2) m by blast
qed

text \<open>
  Claim C5, as stated, fails. On \<open>tie_inputs\<close> the candidates of satellite 0 are \<open>(6, 2)\<close> and
  \<open>(6, 1)\<close>, in the order of the visibility list. The candidate of minimum cost met first is
  satellite 2; the code sorts the pairs and selects satellite 1, so that the entry of
  \<open>(0, 3)\<close> has next hop 1.
\<close>

theorem tie_selects_later_candidate:
  "py_index (ground_station_satellites_in_range tie_inputs) 0 = Inr [(5, 2), (5, 1)] \<and>
   satellite_possibilities (floyd_warshall_numpy (sat_net_graph_without_gs tie_inputs)) 0
     [(5, 2), (5, 1)] = Inr [(6, 2), (6, 1)] \<and>
   first_minimum_cost [(6, 2), (6, 1)] = Some (6, 2) \<and>
   select_possibility [(6, 2), (6, 1)] = Some (6, 1) \<and>
   returned (algorithm_free_one_only_over_isls tie_inputs) =
     Inr [((0, 3), 1, 0, 0), ((1, 3), 3, 1, 0), ((2, 3), 3, 1, 0)]"
  by code_simp

text \<open>
  Claim C5, amended. The selected candidate has the minimum total cost, and among the
  candidates of that cost it has the smallest satellite id, whatever the order of the
  visibility list: every candidate costs strictly more, or costs the same and has an id that
  is not smaller.
\<close>

theorem ties_go_to_smallest_satellite_id:
  assumes "satellite_possibilities D cur vis = Inr ps"
    and "select_possibility ps = Some (c, dst_sat)"
  shows "(\<exists>a x. (a, dst_sat) \<in> set vis \<and> matrix_at D cur dst_sat = Inr (Finite x) \<and> c = x + a) \<and>
         (\<forall>a s x. (a, s) \<in> set vis \<and> matrix_at D cur s = Inr (Finite x) \<longrightarrow>
                  c < x + a \<or> (c = x + a \<and> dst_sat \<le> s))"
proof -
  note S = satellite_possibilities_set[OF assms(1)]
  note sel = select_possibility_Some[OF assms(2)]
  have "(c, dst_sat) \<in> {(x + a, s) | a s x. (a, s) \<in> set vis \<and> matrix_at D cur s = Inr (Finite x)}"
    using sel(1) S by simp
  then have ex: "\<exists>a x. (a, dst_sat) \<in> set vis \<and> matrix_at D cur dst_sat = Inr (Finite x) \<and> c = x + a"
    by blast
  have "c < x + a \<or> (c = x + a \<and> dst_sat \<le> s)"
    if "(a, s) \<in> set vis" "matrix_at D cur s = Inr (Finite x)" for a s x
  proof -
    have "(x + a, s) \<in> set ps" using that S by blast
    then have "(c, dst_sat) \<le> (x + a, s)" using sel(2) by blast
    then show ?thesis by (auto simp: less_eq_prod_simp)
  qed
  then show ?thesis using ex by blast
qed

text \<open>
  Claim C5, amended, on \<open>tie_inputs\<close>.
\<close>

theorem ties_go_to_smallest_satellite_id_witness:
  "satellite_possibilities (floyd_warshall_numpy (sat_net_graph_without_gs tie_inputs)) 0
     [(5, 2), (5, 1)] = Inr [(6, 2), (6, 1)] \<and>
   select_possibility [(6, 2), (6, 1)] = Some (6, 1) \<and>
   (\<exists>a x. (a, 1) \<in> set [(5::real, 2::nat), (5, 1)] \<and>
      matrix_at (floyd_warshall_numpy (sat_net_graph_without_gs tie_inputs)) 0 1
        = Inr (Finite x) \<and> 6 = x + a)"
  using ties_go_to_smallest_satellite_id[OF tie_possibilities tie_selection]
    tie_possibilities tie_selection
  by blast

text \<open>
  Claim C1 fails on \<open>far_inputs\<close>. Satellite 1 is in the visibility list of the ground
  station and is at the finite backbone distance \<open>2 * 10^15\<close> from satellite 0, yet the entry
  of \<open>(0, 2)\<close> is the drop entry: the scan of the neighbours starts from
  \<open>best_dist = 10^15\<close>, not from \<open>+inf\<close>, and no neighbour is below it.
\<close>

theorem far_satellite_entry_is_dropped:
  "py_index (ground_station_satellites_in_range far_inputs) 0 = Inr [(5, 1)] \<and>
   matrix_at (floyd_warshall_numpy (sat_net_graph_without_gs far_inputs)) 0 1 =
     Inr (Finite 2000000000000000) \<and>
   returned (algorithm_free_one_only_over_isls far_inputs) =
     Inr [((0, 2), drop_entry), ((1, 2), 2, 1, 0)]"
  by code_simp

text \<open>
  Claim C4 fails on \<open>far_inputs\<close>, for the same reason. The satellite selected for satellite
  0 is satellite 1, which differs from 0; the only neighbour of 0 is 1, and both interfaces
  are known; the decision is the drop entry and not \<open>(1, 0, 0)\<close>.
\<close>

theorem far_neighbor_is_not_selected:
  "satellite_possibilities (floyd_warshall_numpy (sat_net_graph_without_gs far_inputs)) 0 [(5, 1)] =
     Inr [(2000000000000005, 1)] \<and>
   select_possibility [(2000000000000005, 1)] = Some (2000000000000005, 1) \<and>
   neighbors (sat_net_graph_without_gs far_inputs) 0 = Inr [1] \<and>
   py_getitem (sat_neighbor_to_if far_inputs) (0, 1) = Inr 0 \<and>
   py_getitem (sat_neighbor_to_if far_inputs) (1, 0) = Inr 0 \<and>
   satellite_to_ground_station far_inputs
     (floyd_warshall_numpy (sat_net_graph_without_gs far_inputs)) 0 0 =
     Inr (drop_entry, Finite 2000000000000005)"
  by code_simp

subsection \<open>The graph check\<close>

text \<open>
  Claim C8, as stated, fails. In \<open>gap_inputs\<close> the graph has as many nodes as there are
  satellites, and the edge of satellite 1 touches node 5; but satellite 0 is not a node of
  the graph, so the scan stops at it with the library's \<open>NetworkXError\<close>, not with the
  \<open>ValueError\<close> of the check. Nothing is written in that case either.
\<close>

theorem missing_satellite_node_raises_library_error:
  "number_of_nodes (sat_net_graph_without_gs gap_inputs) = length (satellites gap_inputs) \<and>
   neighbors (sat_net_graph_without_gs gap_inputs) 1 = Inr [5] \<and>
   neighbors (sat_net_graph_without_gs gap_inputs) 0 = Inl NetworkXError \<and>
   algorithm_free_one_only_over_isls gap_inputs =
     \<lparr>gsl_if_bandwidth_file = None, fstate_file = None, returned = Inl NetworkXError\<rparr>"
  by code_simp

text \<open>
  Claim C8, amended. The epoch computation raises \<open>ValueError\<close> exactly when the number of
  nodes differs from \<open>S\<close>, or some satellite \<open>sid\<close> has a neighbour with an id that is not
  below \<open>S\<close> while every id up to \<open>sid\<close> is a node of the graph. When it does, neither output
  file has been opened.
\<close>

theorem topology_error_iff:
  "((\<exists>m. returned (algorithm_free_one_only_over_isls inp) = Inl (ValueError m)) =
      (number_of_nodes (sat_net_graph_without_gs inp) \<noteq> length (satellites inp) \<or>
       (\<exists>sid < length (satellites inp).
          (\<forall>j \<le> sid. has_node (sat_net_graph_without_gs inp) j) \<and>
          (\<exists>ns. neighbors (sat_net_graph_without_gs inp) sid = Inr ns \<and>
                (\<exists>n \<in> set ns. length (satellites inp) \<le> n))))) \<and>
   ((\<exists>m. returned (algorithm_free_one_only_over_isls inp) = Inl (ValueError m)) \<longrightarrow>
      gsl_if_bandwidth_file (algorithm_free_one_only_over_isls inp) = None \<and>
      fstate_file (algorithm_free_one_only_over_isls inp) = None)"
proof -
  have "(\<exists>m. returned (algorithm_free_one_only_over_isls inp) = Inl (ValueError m)) =
        (\<exists>m. check_graph (sat_net_graph_without_gs inp) (length (satellites inp)) =
               Inl (ValueError m))"
    by (simp add: algorithm_ValueError)
  moreover have "gsl_if_bandwidth_file (algorithm_free_one_only_over_isls inp) = None \<and>
      fstate_file (algorithm_free_one_only_over_isls inp) = None"
    if "returned (algorithm_free_one_only_over_isls inp) = Inl (ValueError m)" for m
    using that algorithm_check_failed[of inp "ValueError m"] by (simp add: algorithm_ValueError)
  ultimately show ?thesis
    by (simp add: check_graph_ValueError has_node_iff) blast
qed

text \<open>
  Claim C8, amended, on \<open>link_inputs\<close>: satellite 0 is linked to node 5.
\<close>

theorem topology_error_iff_witness:
  "returned (algorithm_free_one_only_over_isls link_inputs) =
     Inl (ValueError ''Graph cannot contain satellite-to-ground-station links'') \<and>
   (\<exists>sid ns n. sid < length (satellites link_inputs) \<and>
      neighbors (sat_net_graph_without_gs link_inputs) sid = Inr ns \<and>
      n \<in> set ns \<and> length (satellites link_inputs) \<le> n) \<and>
   gsl_if_bandwidth_file (algorithm_free_one_only_over_isls link_inputs) = None \<and>
   fstate_file (algorithm_free_one_only_over_isls link_inputs) = None"
proof -
  have r: "returned (algorithm_free_one_only_over_isls link_inputs) =
     Inl (ValueError ''Graph cannot contain satellite-to-ground-station links'')"
    by (simp add: link_inputs_run)
  then have e: "\<exists>m. returned (algorithm_free_one_only_over_isls link_inputs) = Inl (ValueError m)"
    by blast
  have n: "number_of_nodes (sat_net_graph_without_gs link_inputs) = length (satellites link_inputs)"
    by (simp add: link_inputs_def number_of_nodes_def)
  from topology_error_iff[of link_inputs] e n
  have "\<exists>sid < length (satellites link_inputs).
          (\<forall>j \<le> sid. has_node (sat_net_graph_without_gs link_inputs) j) \<and>
          (\<exists>ns. neighbors (sat_net_graph_without_gs link_inputs) sid = Inr ns \<and>
                (\<exists>n \<in> set ns. length (satellites link_inputs) \<le> n))"
    by blast
  then have "\<exists>sid ns n. sid < length (satellites link_inputs) \<and>
      neighbors (sat_net_graph_without_gs link_inputs) sid = Inr ns \<and>
      n \<in> set ns \<and> length (satellites link_inputs) \<le> n"
    by blast
  then show ?thesis using topology_error_iff[of link_inputs] r e by blast
qed

end
